theory Spec2Isabelle
  imports Main "HOL-Library.Word" "HOL-Library.Monad_Syntax"
begin

unbundle bit_operations_syntax

section \<open>Machine types\<close>

text \<open>
  The program is written for an 8-bit AVR target (it uses \<open>EEMEM\<close> and
  \<open>eeprom_read_block\<close>): \<open>uint8_t\<close> and \<open>int8_t\<close> are 8 bits, \<open>uint16_t\<close> and
  \<open>int\<close> are 16 bits, \<open>long\<close> is 32 bits. Arithmetic on \<open>int\<close> angles is modelled as
  two's complement with wrap-around, which is what the compiler emits; C itself leaves
  signed overflow undefined.
\<close>

type_synonym uint8 = "8 word"
type_synonym int8 = "8 word"
type_synonym uint16 = "16 word"
type_synonym cint = "16 word"

section \<open>Constants of the configuration headers\<close>

text \<open>
  Modelled from the spec: \<open>QuadrupedServoConfiguration.h\<close> and \<open>QuadrupedServoControl.h\<close>
  are not among the sources. The actuator count is fixed at 8, there are 2 actuators per
  leg, the lift channel of a leg is its pivot channel plus 1, and the pivot channels have
  the indices 0, 2, 4, 6 in the order front left, back left, back right, front right (the
  order of the servo objects in lines 40 to 47 of the source).
\<close>

definition NUMBER_OF_SERVOS :: nat where "NUMBER_OF_SERVOS = 8"
definition SERVOS_PER_LEG :: nat where "SERVOS_PER_LEG = 2"
definition LIFT_SERVO_OFFSET :: nat where "LIFT_SERVO_OFFSET = 1"

definition FRONT_LEFT_PIVOT :: nat where "FRONT_LEFT_PIVOT = 0"
definition FRONT_LEFT_LIFT :: nat where "FRONT_LEFT_LIFT = 1"
definition BACK_LEFT_PIVOT :: nat where "BACK_LEFT_PIVOT = 2"
definition BACK_LEFT_LIFT :: nat where "BACK_LEFT_LIFT = 3"
definition BACK_RIGHT_PIVOT :: nat where "BACK_RIGHT_PIVOT = 4"
definition BACK_RIGHT_LIFT :: nat where "BACK_RIGHT_LIFT = 5"
definition FRONT_RIGHT_PIVOT :: nat where "FRONT_RIGHT_PIVOT = 6"
definition FRONT_RIGHT_LIFT :: nat where "FRONT_RIGHT_LIFT = 7"

text \<open>
  Modelled from the spec: the four travel directions and the bit that marks a side
  direction. Forward is 0, left is 1, backward is 2, right is 3, so the side directions
  are the odd ones.
\<close>

definition MOVE_DIRECTION_FORWARD :: uint8 where "MOVE_DIRECTION_FORWARD = 0"
definition MOVE_DIRECTION_LEFT :: uint8 where "MOVE_DIRECTION_LEFT = 1"
definition MOVE_DIRECTION_BACKWARD :: uint8 where "MOVE_DIRECTION_BACKWARD = 2"
definition MOVE_DIRECTION_RIGHT :: uint8 where "MOVE_DIRECTION_RIGHT = 3"
definition MOVE_DIRECTION_SIDE_MASK :: uint8 where "MOVE_DIRECTION_SIDE_MASK = 1"

text \<open>
  Modelled from the spec: \<open>REFRESH_INTERVAL\<close> is a constant of the servo library, in
  microseconds. The tick of the motion loops is 20 ms, and the source, which waits
  \<open>REFRESH_INTERVAL / 1000\<close> milliseconds, notes the same.
\<close>

definition REFRESH_INTERVAL :: nat where "REFRESH_INTERVAL = 20000"

section \<open>The index transform\<close>

text \<open>
  \<open>getMirrorXorMask\<close>: the value to XOR an index with to get the mirrored index.
\<close>

definition getMirrorXorMask :: "uint8 \<Rightarrow> uint8" where
  "getMirrorXorMask aDirection =
     (if aDirection AND MOVE_DIRECTION_SIDE_MASK \<noteq> 0 then 0x2 else 0x6)"

text \<open>
  \<open>transformOneServoIndex\<close>. The operands are promoted to \<open>int\<close>, so the sum and the
  product are exact; the result is converted back to \<open>uint8_t\<close> on return.
\<close>

definition transformOneServoIndex :: "uint8 \<Rightarrow> uint8 \<Rightarrow> bool \<Rightarrow> uint8" where
  "transformOneServoIndex aServoIndexToTransform aDirection doMirror =
     (let tXorToGetMirroredIndex = (if doMirror then getMirrorXorMask aDirection else 0x0)
      in word_of_nat
           (((unat aServoIndexToTransform + unat aDirection * SERVOS_PER_LEG)
               mod NUMBER_OF_SERVOS) XOR unat tXorToGetMirroredIndex))"

section \<open>Program state\<close>

text \<open>
  Modelled from the spec: the class \<open>ServoEasing\<close> belongs to the library, whose sources
  are not given. An actuator channel carries a signed trim offset, its current angle and
  its last commanded target angle; the other attributes play no role here.
\<close>

record ServoEasing =
  trim :: int8
  currentAngle :: cint
  targetAngle :: cint

text \<open>
  What the program does besides changing its variables is recorded in two logs: the
  text written to \<open>Serial\<close>, and the sequence of polls, stop checks, waits and update
  steps of the motion loops.
\<close>

datatype serial_item = Text string | Number int | Newline

datatype event = PollInput | StopCheck | Delay nat | UpdateOne nat | UpdateAll

text \<open>
  The globals of the program. \<open>sServoArray\<close> and \<open>sServoNextPositionArray\<close> are the
  library's registry of attached servos and its array of next positions;
  \<open>sRequestToStopReceived\<close> is the stop request of the input dispatcher, and \<open>irPending\<close>
  holds what the coming polls of the remote control will report (\<open>True\<close>: a stop request
  arrives with this poll).
\<close>

record robot =
  sServoArray :: "ServoEasing list"
  sServoNextPositionArray :: "cint list"
  sServoSpeed :: uint16
  sServoTrimAngles :: "int8 list"
  sRequestToStopReceived :: bool
  irPending :: "bool list"
  serialOut :: "serial_item list"
  events :: "event list"

text \<open>
  How a call ended: it ran to its end, it left through \<open>RETURN_IF_STOP\<close>, or its loop
  was still turning when the iterations granted to it were used up.
\<close>

datatype outcome = Returned | Stopped | StillMoving

section \<open>The collaborators\<close>

text \<open>
  The motion primitives of the servo library are parameters of the model: every theorem
  holds for whatever they compute. \<open>lib_update\<close> advances one servo by one tick and
  reports whether it has reached its target; \<open>lib_updateAllServos\<close> does so for the whole
  registry and reports whether all have stopped.
\<close>

record easing_lib =
  lib_update :: "ServoEasing \<Rightarrow> ServoEasing \<times> bool"
  lib_startEaseTo :: "cint \<Rightarrow> uint16 \<Rightarrow> ServoEasing \<Rightarrow> ServoEasing"
  lib_easeTo :: "cint \<Rightarrow> ServoEasing \<Rightarrow> ServoEasing"
  lib_setEaseToForAllServos :: "cint list \<Rightarrow> ServoEasing list \<Rightarrow> ServoEasing list"
  lib_synchronizeAllServosAndStartInterrupt :: "bool \<Rightarrow> ServoEasing list \<Rightarrow> ServoEasing list"
  lib_updateAllServos :: "ServoEasing list \<Rightarrow> ServoEasing list \<times> bool"

text \<open>
  Modelled from the spec: \<open>ServoEasing::setTrim\<close> (set-trim(offset) of the actuator-easing
  collaborator) stores the trim offset of the channel.
\<close>

definition setTrim :: "int8 \<Rightarrow> ServoEasing \<Rightarrow> ServoEasing" where
  "setTrim aTrimDegrees sv = sv\<lparr>trim := aTrimDegrees\<rparr>"

text \<open>
  Modelled from the spec: \<open>checkIRInput\<close> of \<open>IRCommandDispatcher.h\<close> polls the remote
  control, which may set the stop request and touches nothing else of the program.
\<close>

definition checkIRInput :: "robot \<Rightarrow> robot" where
  "checkIRInput s =
     (case irPending s of
        [] \<Rightarrow> s\<lparr>events := events s @ [PollInput]\<rparr>
      | b # bs \<Rightarrow> s\<lparr>sRequestToStopReceived := (sRequestToStopReceived s \<or> b),
                      irPending := bs, events := events s @ [PollInput]\<rparr>)"

text \<open>
  Modelled from the spec: the macro \<open>RETURN_IF_STOP\<close> of \<open>IRCommandDispatcher.h\<close> reads
  the stop request and returns from the enclosing function when it is set. The model
  yields the value read; the caller branches on it.
\<close>

definition RETURN_IF_STOP :: "robot \<Rightarrow> bool \<times> robot" where
  "RETURN_IF_STOP s = (sRequestToStopReceived s, s\<lparr>events := events s @ [StopCheck]\<rparr>)"

definition delay :: "nat \<Rightarrow> robot \<Rightarrow> robot" where
  "delay ms s = s\<lparr>events := events s @ [Delay ms]\<rparr>"

definition updateAllServos :: "easing_lib \<Rightarrow> robot \<Rightarrow> bool \<times> robot" where
  "updateAllServos lib s =
     (let (servos, allStopped) = lib_updateAllServos lib (sServoArray s)
      in (allStopped, s\<lparr>sServoArray := servos, events := events s @ [UpdateAll]\<rparr>))"

text \<open>\<open>sServoArray[i]->update()\<close>, for an index inside the registry.\<close>

definition updateServo :: "easing_lib \<Rightarrow> nat \<Rightarrow> robot \<Rightarrow> bool \<times> robot" where
  "updateServo lib i s =
     (let (sv, reached) = lib_update lib (sServoArray s ! i)
      in (reached, s\<lparr>sServoArray := (sServoArray s)[i := sv],
                       events := events s @ [UpdateOne i]\<rparr>))"

definition setEaseToForAllServos :: "easing_lib \<Rightarrow> robot \<Rightarrow> robot" where
  "setEaseToForAllServos lib s =
     s\<lparr>sServoArray := lib_setEaseToForAllServos lib (sServoNextPositionArray s) (sServoArray s)\<rparr>"

definition synchronizeAllServosAndStartInterrupt :: "easing_lib \<Rightarrow> bool \<Rightarrow> robot \<Rightarrow> robot" where
  "synchronizeAllServosAndStartInterrupt lib aStartUpdateByInterrupt s =
     s\<lparr>sServoArray :=
         lib_synchronizeAllServosAndStartInterrupt lib aStartUpdateByInterrupt (sServoArray s)\<rparr>"

text \<open>
  The function \<open>map\<close> of the Arduino core,
  \<open>(x - in_min) * (out_max - out_min) / (in_max - in_min) + out_min\<close> on \<open>long\<close>: 32 bits,
  wrap-around written out, division truncating towards zero. A zero divisor has no
  defined result.
\<close>

definition slong :: "int \<Rightarrow> int" where
  "slong k = signed_take_bit 31 k"

definition c_div :: "int \<Rightarrow> int \<Rightarrow> int" where
  "c_div a b = sgn a * sgn b * (\<bar>a\<bar> div \<bar>b\<bar>)"

definition arduino_map :: "int \<Rightarrow> int \<Rightarrow> int \<Rightarrow> int \<Rightarrow> int \<Rightarrow> int option" where
  "arduino_map x in_min in_max out_min out_max =
     (if slong (in_max - in_min) = 0 then None
      else Some (slong (slong (c_div (slong (slong (x - in_min) * slong (out_max - out_min)))
                                     (slong (in_max - in_min)))
                        + out_min)))"

section \<open>The posture staging buffer\<close>

text \<open>
  An assignment \<open>sServoNextPositionArray[i] = v\<close>. The array has a fixed size; an index
  outside it has no defined behaviour, which is the result \<open>None\<close>.
\<close>

definition setNextPosition :: "nat \<Rightarrow> cint \<Rightarrow> robot \<Rightarrow> robot option" where
  "setNextPosition i v s =
     (if i < length (sServoNextPositionArray s)
      then Some (s\<lparr>sServoNextPositionArray := (sServoNextPositionArray s)[i := v]\<rparr>)
      else None)"

text \<open>A sequence of such assignments, in order.\<close>

fun setNextPositions :: "(nat \<times> cint) list \<Rightarrow> robot \<Rightarrow> robot option" where
  "setNextPositions [] s = Some s"
| "setNextPositions ((i, v) # ws) s =
     (case setNextPosition i v s of None \<Rightarrow> None | Some s' \<Rightarrow> setNextPositions ws s')"

section \<open>The synchronization driver\<close>

text \<open>
  The loops may turn forever (a servo that never reports arrival, and no stop request),
  so they take the number of iterations granted to them. An iteration polls the input,
  leaves if a stop is requested, waits one refresh interval, and advances the servos;
  the loop ends when the update reports that the motion is complete.
\<close>

fun updateAndCheckInputAndWaitForAllServosToStop ::
  "easing_lib \<Rightarrow> nat \<Rightarrow> robot \<Rightarrow> outcome \<times> robot" where
  "updateAndCheckInputAndWaitForAllServosToStop lib 0 s = (StillMoving, s)"
| "updateAndCheckInputAndWaitForAllServosToStop lib (Suc fuel) s =
     (let s1 = checkIRInput s;
          (stop, s2) = RETURN_IF_STOP s1
      in if stop then (Stopped, s2)
         else let s3 = delay (REFRESH_INTERVAL div 1000) s2;
                  (allStopped, s4) = updateAllServos lib s3
              in if allStopped then (Returned, s4)
                 else updateAndCheckInputAndWaitForAllServosToStop lib fuel s4)"

definition synchronizeMoveAllServosAndCheckInputAndWait ::
  "easing_lib \<Rightarrow> nat \<Rightarrow> robot \<Rightarrow> outcome \<times> robot" where
  "synchronizeMoveAllServosAndCheckInputAndWait lib fuel s =
     (let s1 = setEaseToForAllServos lib s;
          s2 = synchronizeAllServosAndStartInterrupt lib False s1
      in updateAndCheckInputAndWaitForAllServosToStop lib fuel s2)"

text \<open>The do-while loop of \<open>moveOneServoAndCheckInputAndWait\<close>.\<close>

fun moveOneServo_loop :: "easing_lib \<Rightarrow> nat \<Rightarrow> nat \<Rightarrow> robot \<Rightarrow> outcome \<times> robot" where
  "moveOneServo_loop lib i 0 s = (StillMoving, s)"
| "moveOneServo_loop lib i (Suc fuel) s =
     (let s1 = checkIRInput s;
          (stop, s2) = RETURN_IF_STOP s1
      in if stop then (Stopped, s2)
         else let s3 = delay (REFRESH_INTERVAL div 1000) s2;
                  (reached, s4) = updateServo lib i s3
              in if reached then (Returned, s4)
                 else moveOneServo_loop lib i fuel s4)"

text \<open>
  \<open>moveOneServoAndCheckInputAndWait\<close> with three arguments. An index outside the registry
  dereferences no servo: no defined behaviour.
\<close>

definition moveOneServoAndCheckInputAndWait ::
  "easing_lib \<Rightarrow> nat \<Rightarrow> uint8 \<Rightarrow> cint \<Rightarrow> uint16 \<Rightarrow> robot \<Rightarrow> (outcome \<times> robot) option" where
  "moveOneServoAndCheckInputAndWait lib fuel aServoIndex aDegree aDegreesPerSecond s =
     (let i = unat aServoIndex
      in if i < length (sServoArray s)
         then Some (moveOneServo_loop lib i fuel
                (s\<lparr>sServoArray := (sServoArray s)
                      [i := lib_startEaseTo lib aDegree aDegreesPerSecond (sServoArray s ! i)]\<rparr>))
         else None)"

text \<open>The overload with two arguments moves with \<open>sServoSpeed\<close>.\<close>

definition moveOneServoAndCheckInputAndWait2 ::
  "easing_lib \<Rightarrow> nat \<Rightarrow> uint8 \<Rightarrow> cint \<Rightarrow> robot \<Rightarrow> (outcome \<times> robot) option" where
  "moveOneServoAndCheckInputAndWait2 lib fuel aServoIndex aDegree s =
     moveOneServoAndCheckInputAndWait lib fuel aServoIndex aDegree (sServoSpeed s) s"

section \<open>The transformation routines\<close>

text \<open>
  \<open>transformAndSetAllServos\<close>. \<open>tIndexToAdd\<close> and \<open>tEffectivePivotServoIndex\<close> are
  \<open>uint8_t\<close>; the expressions assigned to them are computed in \<open>int\<close> and converted.
\<close>

definition transformAndSetAllServos ::
  "easing_lib \<Rightarrow> nat \<Rightarrow> cint \<Rightarrow> cint \<Rightarrow> cint \<Rightarrow> cint \<Rightarrow> cint \<Rightarrow> cint \<Rightarrow> cint \<Rightarrow> cint
     \<Rightarrow> uint8 \<Rightarrow> bool \<Rightarrow> bool \<Rightarrow> robot \<Rightarrow> (outcome \<times> robot) option" where
  "transformAndSetAllServos lib fuel aFLP aBLP aBRP aFRP aFLL aBLL aBRL aFRL aDirection
       doMirror aDoMove s =
     (let tIndexToAdd = (word_of_nat (unat aDirection * SERVOS_PER_LEG) :: uint8);
          tXorToGetMirroredIndex = (if doMirror then getMirrorXorMask aDirection else 0x0);
          doInvert = (if doMirror then True else False)
      in do {
        let tEffectivePivotServoIndex = (word_of_nat
              (((FRONT_LEFT_PIVOT + unat tIndexToAdd) mod NUMBER_OF_SERVOS)
                 XOR unat tXorToGetMirroredIndex) :: uint8);
        let aFLP = (if doInvert then 180 - aFLP else aFLP);
        s \<leftarrow> setNextPosition (unat tEffectivePivotServoIndex) aFLP s;
        s \<leftarrow> setNextPosition (unat tEffectivePivotServoIndex + LIFT_SERVO_OFFSET) aFLL s;

        let tEffectivePivotServoIndex = (word_of_nat
              (((BACK_LEFT_PIVOT + unat tIndexToAdd) mod NUMBER_OF_SERVOS)
                 XOR unat tXorToGetMirroredIndex) :: uint8);
        let aBLP = (if doInvert then 180 - aBLP else aBLP);
        s \<leftarrow> setNextPosition (unat tEffectivePivotServoIndex) aBLP s;
        s \<leftarrow> setNextPosition (unat tEffectivePivotServoIndex + LIFT_SERVO_OFFSET) aBLL s;

        let tEffectivePivotServoIndex = (word_of_nat
              (((BACK_RIGHT_PIVOT + unat tIndexToAdd) mod NUMBER_OF_SERVOS)
                 XOR unat tXorToGetMirroredIndex) :: uint8);
        let aBRP = (if doInvert then 180 - aBRP else aBRP);
        s \<leftarrow> setNextPosition (unat tEffectivePivotServoIndex) aBRP s;
        s \<leftarrow> setNextPosition (unat tEffectivePivotServoIndex + LIFT_SERVO_OFFSET) aBRL s;

        let tEffectivePivotServoIndex = (word_of_nat
              (((FRONT_RIGHT_PIVOT + unat tIndexToAdd) mod NUMBER_OF_SERVOS)
                 XOR unat tXorToGetMirroredIndex) :: uint8);
        let aFRP = (if doInvert then 180 - aFRP else aFRP);
        s \<leftarrow> setNextPosition (unat tEffectivePivotServoIndex) aFRP s;
        s \<leftarrow> setNextPosition (unat tEffectivePivotServoIndex + LIFT_SERVO_OFFSET) aFRL s;

        if aDoMove then Some (synchronizeMoveAllServosAndCheckInputAndWait lib fuel s)
        else Some (Returned, s)
      })"

text \<open>
  \<open>transformAndSetPivotServos\<close>: a subset of the functionality of
  \<open>transformAndSetAllServos\<close>, with its own copy of the index arithmetic.
\<close>

definition transformAndSetPivotServos ::
  "easing_lib \<Rightarrow> nat \<Rightarrow> cint \<Rightarrow> cint \<Rightarrow> cint \<Rightarrow> cint
     \<Rightarrow> uint8 \<Rightarrow> bool \<Rightarrow> bool \<Rightarrow> robot \<Rightarrow> (outcome \<times> robot) option" where
  "transformAndSetPivotServos lib fuel aFLP aBLP aBRP aFRP aDirection doMirror aDoMove s =
     (let tIndexToAdd = (word_of_nat (unat aDirection * SERVOS_PER_LEG) :: uint8);
          tXorToGetMirroredIndex = (if doMirror then getMirrorXorMask aDirection else 0x0);
          doInvert = (if doMirror then True else False)
      in do {
        let tEffectivePivotServoIndex = (word_of_nat
              (((FRONT_LEFT_PIVOT + unat tIndexToAdd) mod NUMBER_OF_SERVOS)
                 XOR unat tXorToGetMirroredIndex) :: uint8);
        let aFLP = (if doInvert then 180 - aFLP else aFLP);
        s \<leftarrow> setNextPosition (unat tEffectivePivotServoIndex) aFLP s;

        let tEffectivePivotServoIndex = (word_of_nat
              (((BACK_LEFT_PIVOT + unat tIndexToAdd) mod NUMBER_OF_SERVOS)
                 XOR unat tXorToGetMirroredIndex) :: uint8);
        let aBLP = (if doInvert then 180 - aBLP else aBLP);
        s \<leftarrow> setNextPosition (unat tEffectivePivotServoIndex) aBLP s;

        let tEffectivePivotServoIndex = (word_of_nat
              (((BACK_RIGHT_PIVOT + unat tIndexToAdd) mod NUMBER_OF_SERVOS)
                 XOR unat tXorToGetMirroredIndex) :: uint8);
        let aBRP = (if doInvert then 180 - aBRP else aBRP);
        s \<leftarrow> setNextPosition (unat tEffectivePivotServoIndex) aBRP s;

        let tEffectivePivotServoIndex = (word_of_nat
              (((FRONT_RIGHT_PIVOT + unat tIndexToAdd) mod NUMBER_OF_SERVOS)
                 XOR unat tXorToGetMirroredIndex) :: uint8);
        let aFRP = (if doInvert then 180 - aFRP else aFRP);
        s \<leftarrow> setNextPosition (unat tEffectivePivotServoIndex) aFRP s;

        if aDoMove then Some (synchronizeMoveAllServosAndCheckInputAndWait lib fuel s)
        else Some (Returned, s)
      })"

text \<open>\<open>setAllServos\<close>: eight assignments to the canonical slots, then the move.\<close>

definition setAllServos ::
  "easing_lib \<Rightarrow> nat \<Rightarrow> cint \<Rightarrow> cint \<Rightarrow> cint \<Rightarrow> cint \<Rightarrow> cint \<Rightarrow> cint \<Rightarrow> cint \<Rightarrow> cint
     \<Rightarrow> robot \<Rightarrow> (outcome \<times> robot) option" where
  "setAllServos lib fuel aFLP aBLP aBRP aFRP aFLL aBLL aBRL aFRL s =
     do {
       s \<leftarrow> setNextPosition FRONT_LEFT_PIVOT aFLP s;
       s \<leftarrow> setNextPosition BACK_LEFT_PIVOT aBLP s;
       s \<leftarrow> setNextPosition BACK_RIGHT_PIVOT aBRP s;
       s \<leftarrow> setNextPosition FRONT_RIGHT_PIVOT aFRP s;
       s \<leftarrow> setNextPosition FRONT_LEFT_LIFT aFLL s;
       s \<leftarrow> setNextPosition BACK_LEFT_LIFT aBLL s;
       s \<leftarrow> setNextPosition BACK_RIGHT_LIFT aBRL s;
       s \<leftarrow> setNextPosition FRONT_RIGHT_LIFT aFRL s;
       Some (synchronizeMoveAllServosAndCheckInputAndWait lib fuel s)
     }"

section \<open>Body height\<close>

text \<open>
  \<open>setLiftServoHeight\<close>. The servo is passed by reference; the model returns its new
  state. \<open>LIFT_MAX_ANGLE\<close> and \<open>LIFT_MIN_ANGLE\<close> are \<open>int\<close> constants of a header that is
  not among the sources, so they are parameters; \<open>map\<close> takes them as \<open>long\<close>, and its
  result is converted to \<open>int\<close>.
\<close>

definition setLiftServoHeight ::
  "easing_lib \<Rightarrow> cint \<Rightarrow> cint \<Rightarrow> ServoEasing \<Rightarrow> uint8 \<Rightarrow> ServoEasing option" where
  "setLiftServoHeight lib LIFT_MAX_ANGLE LIFT_MIN_ANGLE aLiftServo aHeightPercent =
     (let aHeightPercent = (if aHeightPercent > 100 then 100 else aHeightPercent)
      in case arduino_map (uint aHeightPercent) 0 100 (sint LIFT_MAX_ANGLE) (sint LIFT_MIN_ANGLE) of
           None \<Rightarrow> None
         | Some r \<Rightarrow>
             (let tDegreeForLiftServo = (word_of_int r :: cint)
              in Some (lib_easeTo lib tDegreeForLiftServo aLiftServo)))"

section \<open>Diagnostic output and trim\<close>

definition serial_print :: "serial_item list \<Rightarrow> robot \<Rightarrow> robot" where
  "serial_print items s = s\<lparr>serialOut := serialOut s @ items\<rparr>"

definition printSpeed :: "robot \<Rightarrow> robot" where
  "printSpeed s =
     (let s = serial_print [Text '' Speed=''] s
      in serial_print [Number (uint (sServoSpeed s)), Newline] s)"

text \<open>
  \<open>printTrimAngles\<close>: the loop over the eight servos, from the counter \<open>i\<close> on. Each
  round prints one line and calls \<open>setTrim\<close> on the servo. The trim array has exactly
  \<open>NUMBER_OF_SERVOS\<close> entries; a registry with no servo at \<open>i\<close> gives no defined behaviour.
\<close>

function printTrimAngles_from :: "nat \<Rightarrow> robot \<Rightarrow> robot option" where
  "printTrimAngles_from i s =
     (if i < NUMBER_OF_SERVOS
      then (if i < length (sServoTrimAngles s) \<and> i < length (sServoArray s)
            then (let s = serial_print [Text ''ServoTrimAngle[''] s;
                      s = serial_print [Number (int i)] s;
                      s = serial_print [Text '']=''] s;
                      s = serial_print [Number (sint (sServoTrimAngles s ! i)), Newline] s;
                      s = s\<lparr>sServoArray := (sServoArray s)
                             [i := setTrim (sServoTrimAngles s ! i) (sServoArray s ! i)]\<rparr>
                  in printTrimAngles_from (Suc i) s)
            else None)
      else Some s)"
  by pat_completeness auto
termination
  by (relation "measure (\<lambda>(i, s). NUMBER_OF_SERVOS - i)") auto

definition printTrimAngles :: "robot \<Rightarrow> robot option" where
  "printTrimAngles s = printTrimAngles_from 0 s"

text \<open>The line that \<open>printTrimAngles\<close> writes for servo \<open>j\<close>.\<close>

definition trim_line :: "robot \<Rightarrow> nat \<Rightarrow> serial_item list" where
  "trim_line s j =
     [Text ''ServoTrimAngle['', Number (int j), Text '']='',
      Number (sint (sServoTrimAngles s ! j)), Newline]"

section \<open>Sequences of calls that stage a posture\<close>

text \<open>
  A call that writes to the staging buffer and does not commit: \<open>transformAndSetAllServos\<close>
  or \<open>transformAndSetPivotServos\<close> with \<open>aDoMove\<close> false, as \<open>testTransform\<close> makes them
  one after the other.
\<close>

datatype staging_call =
    TransformAll cint cint cint cint cint cint cint cint uint8 bool
  | TransformPivots cint cint cint cint uint8 bool

fun stage_call :: "easing_lib \<Rightarrow> staging_call \<Rightarrow> robot \<Rightarrow> robot option" where
  "stage_call lib (TransformAll aFLP aBLP aBRP aFRP aFLL aBLL aBRL aFRL aDirection doMirror) s =
     map_option snd
       (transformAndSetAllServos lib 0 aFLP aBLP aBRP aFRP aFLL aBLL aBRL aFRL
          aDirection doMirror False s)"
| "stage_call lib (TransformPivots aFLP aBLP aBRP aFRP aDirection doMirror) s =
     map_option snd
       (transformAndSetPivotServos lib 0 aFLP aBLP aBRP aFRP aDirection doMirror False s)"

fun stage_calls :: "easing_lib \<Rightarrow> staging_call list \<Rightarrow> robot \<Rightarrow> robot option" where
  "stage_calls lib [] s = Some s"
| "stage_calls lib (c # cs) s =
     (case stage_call lib c s of None \<Rightarrow> None | Some s' \<Rightarrow> stage_calls lib cs s')"

text \<open>
  The writes of such a call, as slot and value, in the order in which the call makes
  them: each pivot angle, inverted when mirroring, at the transformed index of its role
  (0, 2, 4 and 6 are the pivot slots of the front left, back left, back right and front
  right leg), and each lift angle one slot after it. That the calls make exactly these
  assignments is lemma \<open>stage_call_writes\<close>.
\<close>

fun writes_of :: "staging_call \<Rightarrow> (nat \<times> cint) list" where
  "writes_of (TransformAll aFLP aBLP aBRP aFRP aFLL aBLL aBRL aFRL d m) =
     [(unat (transformOneServoIndex 0 d m), if m then 180 - aFLP else aFLP),
      (Suc (unat (transformOneServoIndex 0 d m)), aFLL),
      (unat (transformOneServoIndex 2 d m), if m then 180 - aBLP else aBLP),
      (Suc (unat (transformOneServoIndex 2 d m)), aBLL),
      (unat (transformOneServoIndex 4 d m), if m then 180 - aBRP else aBRP),
      (Suc (unat (transformOneServoIndex 4 d m)), aBRL),
      (unat (transformOneServoIndex 6 d m), if m then 180 - aFRP else aFRP),
      (Suc (unat (transformOneServoIndex 6 d m)), aFRL)]"
| "writes_of (TransformPivots aFLP aBLP aBRP aFRP d m) =
     [(unat (transformOneServoIndex 0 d m), if m then 180 - aFLP else aFLP),
      (unat (transformOneServoIndex 2 d m), if m then 180 - aBLP else aBLP),
      (unat (transformOneServoIndex 4 d m), if m then 180 - aBRP else aBRP),
      (unat (transformOneServoIndex 6 d m), if m then 180 - aFRP else aFRP)]"

text \<open>The writes of \<open>setAllServos\<close>, in its order.\<close>

definition writes_of_setAllServos ::
  "cint \<Rightarrow> cint \<Rightarrow> cint \<Rightarrow> cint \<Rightarrow> cint \<Rightarrow> cint \<Rightarrow> cint \<Rightarrow> cint \<Rightarrow> (nat \<times> cint) list" where
  "writes_of_setAllServos aFLP aBLP aBRP aFRP aFLL aBLL aBRL aFRL =
     [(FRONT_LEFT_PIVOT, aFLP), (BACK_LEFT_PIVOT, aBLP), (BACK_RIGHT_PIVOT, aBRP),
      (FRONT_RIGHT_PIVOT, aFRP), (FRONT_LEFT_LIFT, aFLL), (BACK_LEFT_LIFT, aBLL),
      (BACK_RIGHT_LIFT, aBRL), (FRONT_RIGHT_LIFT, aFRL)]"

section \<open>Properties of event sequences\<close>

text \<open>
  One full turn of the body of a motion loop, when no stop is requested: poll, stop
  check, wait, update.
\<close>

definition loop_round_all :: "easing_lib \<Rightarrow> robot \<Rightarrow> robot" where
  "loop_round_all lib s =
     snd (updateAllServos lib (delay (REFRESH_INTERVAL div 1000)
            (snd (RETURN_IF_STOP (checkIRInput s)))))"

definition loop_round_one :: "easing_lib \<Rightarrow> nat \<Rightarrow> robot \<Rightarrow> robot" where
  "loop_round_one lib i s =
     snd (updateServo lib i (delay (REFRESH_INTERVAL div 1000)
            (snd (RETURN_IF_STOP (checkIRInput s)))))"

text \<open>
  Whether the update of the turn that begins in a state reports that the motion is
  complete.
\<close>

definition loop_done_all :: "easing_lib \<Rightarrow> robot \<Rightarrow> bool" where
  "loop_done_all lib s =
     fst (updateAllServos lib (delay (REFRESH_INTERVAL div 1000)
            (snd (RETURN_IF_STOP (checkIRInput s)))))"

definition loop_done_one :: "easing_lib \<Rightarrow> nat \<Rightarrow> robot \<Rightarrow> bool" where
  "loop_done_one lib i s =
     fst (updateServo lib i (delay (REFRESH_INTERVAL div 1000)
            (snd (RETURN_IF_STOP (checkIRInput s)))))"

fun is_update :: "event \<Rightarrow> bool" where
  "is_update UpdateAll = True"
| "is_update (UpdateOne i) = True"
| "is_update e = False"

text \<open>
  The property that a stop check follows every update step: after each update in the
  sequence, a stop check occurs before the next update or the end of the sequence.
\<close>

fun stop_checked_after_every_update :: "event list \<Rightarrow> bool" where
  "stop_checked_after_every_update [] = True"
| "stop_checked_after_every_update (e # es) =
     ((if is_update e then StopCheck \<in> set (takeWhile (\<lambda>x. \<not> is_update x) es) else True)
      \<and> stop_checked_after_every_update es)"

text \<open>
  The property that a poll, a stop check and a wait of one refresh interval occur before
  the first update (the first completion check) of a sequence.
\<close>

definition tick_before_first_update :: "event list \<Rightarrow> bool" where
  "tick_before_first_update es =
     (let before = takeWhile (\<lambda>x. \<not> is_update x) es
      in PollInput \<in> set before \<and> StopCheck \<in> set before \<and>
         Delay (REFRESH_INTERVAL div 1000) \<in> set before)"

section \<open>Concrete inputs\<close>

text \<open>
  The state after start-up: eight servos attached at 90 degrees, the global arrays
  zero-initialised, \<open>sServoSpeed\<close> at 90 degrees per second, no stop requested and no
  input pending.
\<close>

definition startup_robot :: robot where
  "startup_robot =
     \<lparr>sServoArray = replicate 8 \<lparr>trim = 0, currentAngle = 90, targetAngle = 90\<rparr>,
      sServoNextPositionArray = replicate 8 0,
      sServoSpeed = 90,
      sServoTrimAngles = replicate 8 0,
      sRequestToStopReceived = False,
      irPending = [],
      serialOut = [],
      events = []\<rparr>"

text \<open>
  A stand-in for the servo library, used only to run the model on concrete inputs: a
  servo moves one degree per update towards its target and reports arrival when it is
  there; a blocking \<open>easeTo\<close> ends at the target.
\<close>

definition step_update :: "ServoEasing \<Rightarrow> ServoEasing \<times> bool" where
  "step_update sv =
     (if currentAngle sv = targetAngle sv then (sv, True)
      else let sv' = sv\<lparr>currentAngle :=
                 (if sint (currentAngle sv) < sint (targetAngle sv)
                  then currentAngle sv + 1 else currentAngle sv - 1)\<rparr>
           in (sv', currentAngle sv' = targetAngle sv'))"

definition step_lib :: easing_lib where
  "step_lib =
     \<lparr>lib_update = step_update,
      lib_startEaseTo = (\<lambda>a speed sv. sv\<lparr>targetAngle := a\<rparr>),
      lib_easeTo = (\<lambda>a sv. sv\<lparr>currentAngle := a, targetAngle := a\<rparr>),
      lib_setEaseToForAllServos =
        (\<lambda>next servos. map (\<lambda>(sv, a). sv\<lparr>targetAngle := a\<rparr>) (zip servos next)),
      lib_synchronizeAllServosAndStartInterrupt = (\<lambda>b servos. servos),
      lib_updateAllServos =
        (\<lambda>servos. (map (\<lambda>sv. fst (step_update sv)) servos,
                     list_all (\<lambda>sv. snd (step_update sv)) servos))\<rparr>"

text \<open>
  A state in the middle of a motion: servo 0 is on its way from 90 to 92 degrees, and a
  stop request arrives with the second poll.
\<close>

definition stop_pending_robot :: robot where
  "stop_pending_robot =
     startup_robot
       \<lparr>sServoArray := (sServoArray startup_robot)
            [0 := \<lparr>trim = 0, currentAngle = 90, targetAngle = 92\<rparr>],
        irPending := [False, True]\<rparr>"

text \<open>
  The state after the trim table was read from EEPROM: the working trim table holds 5
  and -3 degrees for the first two servos, the servos themselves still have trim 0.
\<close>

definition trimmed_robot :: robot where
  "trimmed_robot = startup_robot\<lparr>sServoTrimAngles := [5, - 3, 0, 0, 0, 0, 0, 0]\<rparr>"

section \<open>Facts about the index arithmetic\<close>

lemmas config_defs =
  NUMBER_OF_SERVOS_def SERVOS_PER_LEG_def LIFT_SERVO_OFFSET_def
  FRONT_LEFT_PIVOT_def FRONT_LEFT_LIFT_def BACK_LEFT_PIVOT_def BACK_LEFT_LIFT_def
  BACK_RIGHT_PIVOT_def BACK_RIGHT_LIFT_def FRONT_RIGHT_PIVOT_def FRONT_RIGHT_LIFT_def

lemmas direction_defs =
  MOVE_DIRECTION_FORWARD_def MOVE_DIRECTION_LEFT_def MOVE_DIRECTION_BACKWARD_def
  MOVE_DIRECTION_RIGHT_def

lemma side_mask_odd: "(aDirection AND MOVE_DIRECTION_SIDE_MASK \<noteq> 0) = odd (unat aDirection)"
  using and_mask_dvd_nat [of 1 aDirection]
  by (simp add: MOVE_DIRECTION_SIDE_MASK_def)

lemma getMirrorXorMask_cases:
  "getMirrorXorMask aDirection = (if odd (unat aDirection) then 2 else 6)"
  by (simp add: getMirrorXorMask_def side_mask_odd)

lemma shift_mod_8: "(n * 2) mod 8 = 2 * (n mod 4)" for n :: nat
proof -
  have "2 * (n mod 4) = (2 * n) mod (2 * 4)"
    by (rule mult_mod_right)
  then show ?thesis by (simp add: mult.commute)
qed

lemma add_shift_mod_8: "(c + n * 2) mod 8 = (c + 2 * (n mod 4)) mod 8" for c n :: nat
proof -
  have "(c + n * 2) mod 8 = (c + (n * 2) mod 8) mod 8"
    by (simp add: mod_add_right_eq)
  then show ?thesis by (simp add: shift_mod_8)
qed

lemma mod_4_cases:
  fixes n :: nat
  obtains "2 * (n mod 4) = 0" "even n" | "2 * (n mod 4) = 2" "odd n"
        | "2 * (n mod 4) = 4" "even n" | "2 * (n mod 4) = 6" "odd n"
proof -
  have "n mod 4 < 4" by simp
  then consider "n mod 4 = 0" | "n mod 4 = 1" | "n mod 4 = 2" | "n mod 4 = 3"
    by linarith
  then show thesis
  proof cases
    case 1
    then have "2 * (n mod 4) = 0" "even n" by presburger+
    then show ?thesis by (rule that(1))
  next
    case 2
    then have "2 * (n mod 4) = 2" "odd n" by presburger+
    then show ?thesis by (rule that(2))
  next
    case 3
    then have "2 * (n mod 4) = 4" "even n" by presburger+
    then show ?thesis by (rule that(3))
  next
    case 4
    then have "2 * (n mod 4) = 6" "odd n" by presburger+
    then show ?thesis by (rule that(4))
  qed
qed

text \<open>
  The transformed index, for every direction byte: only the direction modulo 4 matters.
\<close>

lemma transformOneServoIndex_mod4:
  "transformOneServoIndex i d m =
     word_of_nat (((unat i + 2 * (unat d mod 4)) mod 8)
                    XOR (if m then (if odd (unat d) then 2 else 6) else 0))"
  by (simp add: transformOneServoIndex_def Let_def getMirrorXorMask_cases
      SERVOS_PER_LEG_def NUMBER_OF_SERVOS_def add_shift_mod_8)

lemma unat_shift_mod_8:
  "(c + unat (d * 2)) mod 8 = (c + 2 * (unat d mod 4)) mod 8" for d :: uint8
proof -
  have "unat (d * 2) = (unat d * 2) mod 256"
    by (simp add: unat_word_ariths)
  moreover have "(c + (unat d * 2) mod 256) mod 8 = (c + unat d * 2) mod 8"
  proof -
    have "(unat d * 2) mod 256 mod 8 = (unat d * 2) mod 8"
      by (rule mod_mod_cancel) simp
    then show ?thesis
      by (metis mod_add_right_eq)
  qed
  ultimately show ?thesis
    by (simp add: add_shift_mod_8)
qed

lemma inline_index:
  assumes "c < 8"
  shows "(word_of_nat (((c + unat (word_of_nat (unat d * SERVOS_PER_LEG) :: uint8)) mod NUMBER_OF_SERVOS)
            XOR unat (if m then getMirrorXorMask d else 0x0)) :: uint8)
         = transformOneServoIndex (word_of_nat c) d m"
proof -
  have "unat (word_of_nat c :: uint8) = c"
    using assms by (simp add: unat_of_nat)
  then show ?thesis
    by (simp add: transformOneServoIndex_mod4 unat_shift_mod_8 getMirrorXorMask_cases
        SERVOS_PER_LEG_def NUMBER_OF_SERVOS_def)
qed

lemma pivot_index_table:
  "(transformOneServoIndex 0 d m, transformOneServoIndex 2 d m,
    transformOneServoIndex 4 d m, transformOneServoIndex 6 d m)
   \<in> {(0, 2, 4, 6), (2, 4, 6, 0), (4, 6, 0, 2), (6, 0, 2, 4),
       (6, 4, 2, 0), (2, 0, 6, 4), (0, 6, 4, 2), (4, 2, 0, 6)}"
proof (cases rule: mod_4_cases [of "unat d"])
  case 1
  show ?thesis
    unfolding transformOneServoIndex_mod4 1(1) using 1(2) by (cases m) (simp_all del: add_2_eq_Suc add_2_eq_Suc')
next
  case 2
  show ?thesis
    unfolding transformOneServoIndex_mod4 2(1) using 2(2) by (cases m) (simp_all del: add_2_eq_Suc add_2_eq_Suc')
next
  case 3
  show ?thesis
    unfolding transformOneServoIndex_mod4 3(1) using 3(2) by (cases m) (simp_all del: add_2_eq_Suc add_2_eq_Suc')
next
  case 4
  show ?thesis
    unfolding transformOneServoIndex_mod4 4(1) using 4(2) by (cases m) (simp_all del: add_2_eq_Suc add_2_eq_Suc')
qed


lemma inline_pivot_index:
  "(word_of_nat (((FRONT_LEFT_PIVOT + unat (word_of_nat (unat d * SERVOS_PER_LEG) :: uint8))
       mod NUMBER_OF_SERVOS) XOR unat (if m then getMirrorXorMask d else 0x0)) :: uint8)
     = transformOneServoIndex 0 d m"
  "(word_of_nat (((BACK_LEFT_PIVOT + unat (word_of_nat (unat d * SERVOS_PER_LEG) :: uint8))
       mod NUMBER_OF_SERVOS) XOR unat (if m then getMirrorXorMask d else 0x0)) :: uint8)
     = transformOneServoIndex 2 d m"
  "(word_of_nat (((BACK_RIGHT_PIVOT + unat (word_of_nat (unat d * SERVOS_PER_LEG) :: uint8))
       mod NUMBER_OF_SERVOS) XOR unat (if m then getMirrorXorMask d else 0x0)) :: uint8)
     = transformOneServoIndex 4 d m"
  "(word_of_nat (((FRONT_RIGHT_PIVOT + unat (word_of_nat (unat d * SERVOS_PER_LEG) :: uint8))
       mod NUMBER_OF_SERVOS) XOR unat (if m then getMirrorXorMask d else 0x0)) :: uint8)
     = transformOneServoIndex 6 d m"
  using inline_index [of 0 d m] inline_index [of 2 d m] inline_index [of 4 d m]
    inline_index [of 6 d m]
  by (simp_all add: config_defs)

lemma pivot_index_le_6:
  "unat (transformOneServoIndex 0 d m) \<le> 6" "unat (transformOneServoIndex 2 d m) \<le> 6"
  "unat (transformOneServoIndex 4 d m) \<le> 6" "unat (transformOneServoIndex 6 d m) \<le> 6"
  using pivot_index_table [of d m] by auto

lemma setNextPosition_Some:
  "i < length (sServoNextPositionArray s) \<Longrightarrow>
   setNextPosition i v s =
     Some (s\<lparr>sServoNextPositionArray := (sServoNextPositionArray s)[i := v]\<rparr>)"
  by (simp add: setNextPosition_def)

lemma transformAndSetAllServos_staged:
  assumes "NUMBER_OF_SERVOS \<le> length (sServoNextPositionArray s)"
  shows "transformAndSetAllServos lib fuel aFLP aBLP aBRP aFRP aFLL aBLL aBRL aFRL d m False s =
     Some (Returned, s\<lparr>sServoNextPositionArray := (sServoNextPositionArray s)
       [unat (transformOneServoIndex 0 d m) := (if m then 180 - aFLP else aFLP),
        Suc (unat (transformOneServoIndex 0 d m)) := aFLL,
        unat (transformOneServoIndex 2 d m) := (if m then 180 - aBLP else aBLP),
        Suc (unat (transformOneServoIndex 2 d m)) := aBLL,
        unat (transformOneServoIndex 4 d m) := (if m then 180 - aBRP else aBRP),
        Suc (unat (transformOneServoIndex 4 d m)) := aBRL,
        unat (transformOneServoIndex 6 d m) := (if m then 180 - aFRP else aFRP),
        Suc (unat (transformOneServoIndex 6 d m)) := aFRL]\<rparr>)"
proof -
  have len: "8 \<le> length (sServoNextPositionArray s)"
    using assms by (simp add: NUMBER_OF_SERVOS_def)
  note b = pivot_index_le_6 [of d m]
  show ?thesis
    unfolding transformAndSetAllServos_def Let_def inline_pivot_index
    using len b by (simp add: setNextPosition_def LIFT_SERVO_OFFSET_def)
qed

section \<open>What the motion loops leave unchanged\<close>

lemma checkIRInput_frame [simp]:
  "sServoNextPositionArray (checkIRInput s) = sServoNextPositionArray s"
  "sServoArray (checkIRInput s) = sServoArray s"
  "sServoTrimAngles (checkIRInput s) = sServoTrimAngles s"
  "sServoSpeed (checkIRInput s) = sServoSpeed s"
  "serialOut (checkIRInput s) = serialOut s"
  "events (checkIRInput s) = events s @ [PollInput]"
  by (simp_all add: checkIRInput_def split: list.splits)

lemma RETURN_IF_STOP_frame [simp]:
  "fst (RETURN_IF_STOP s) = sRequestToStopReceived s"
  "snd (RETURN_IF_STOP s) = s\<lparr>events := events s @ [StopCheck]\<rparr>"
  by (simp_all add: RETURN_IF_STOP_def)

lemma updateAllServos_frame [simp]:
  "sServoNextPositionArray (snd (updateAllServos lib s)) = sServoNextPositionArray s"
  "sServoTrimAngles (snd (updateAllServos lib s)) = sServoTrimAngles s"
  "sServoSpeed (snd (updateAllServos lib s)) = sServoSpeed s"
  "serialOut (snd (updateAllServos lib s)) = serialOut s"
  "events (snd (updateAllServos lib s)) = events s @ [UpdateAll]"
  by (simp_all add: updateAllServos_def case_prod_beta)

lemma updateServo_frame [simp]:
  "sServoNextPositionArray (snd (updateServo lib i s)) = sServoNextPositionArray s"
  "sServoTrimAngles (snd (updateServo lib i s)) = sServoTrimAngles s"
  "sServoSpeed (snd (updateServo lib i s)) = sServoSpeed s"
  "serialOut (snd (updateServo lib i s)) = serialOut s"
  "events (snd (updateServo lib i s)) = events s @ [UpdateOne i]"
  by (simp_all add: updateServo_def case_prod_beta)

lemma loop_all_frame:
  "sServoNextPositionArray (snd (updateAndCheckInputAndWaitForAllServosToStop lib fuel s))
     = sServoNextPositionArray s"
  by (induction fuel arbitrary: s) (simp_all add: Let_def case_prod_beta delay_def)

lemma synchronizeMove_staging:
  "sServoNextPositionArray (snd (synchronizeMoveAllServosAndCheckInputAndWait lib fuel s))
     = sServoNextPositionArray s"
  by (simp add: synchronizeMoveAllServosAndCheckInputAndWait_def Let_def loop_all_frame
      setEaseToForAllServos_def synchronizeAllServosAndStartInterrupt_def)

lemma transformAndSetAllServos_move:
  "transformAndSetAllServos lib fuel aFLP aBLP aBRP aFRP aFLL aBLL aBRL aFRL d m aDoMove s =
     (case transformAndSetAllServos lib fuel aFLP aBLP aBRP aFRP aFLL aBLL aBRL aFRL d m False s of
        None \<Rightarrow> None
      | Some (r, s') \<Rightarrow>
          if aDoMove then Some (synchronizeMoveAllServosAndCheckInputAndWait lib fuel s')
          else Some (Returned, s'))"
  unfolding transformAndSetAllServos_def Let_def
  by (simp split: Option.bind_split)


lemma transformAndSetAllServos_buffer:
  assumes "NUMBER_OF_SERVOS \<le> length (sServoNextPositionArray s)"
  obtains r s' where
    "transformAndSetAllServos lib fuel aFLP aBLP aBRP aFRP aFLL aBLL aBRL aFRL d m aDoMove s
       = Some (r, s')"
    "sServoNextPositionArray s' = (sServoNextPositionArray s)
       [unat (transformOneServoIndex 0 d m) := (if m then 180 - aFLP else aFLP),
        Suc (unat (transformOneServoIndex 0 d m)) := aFLL,
        unat (transformOneServoIndex 2 d m) := (if m then 180 - aBLP else aBLP),
        Suc (unat (transformOneServoIndex 2 d m)) := aBLL,
        unat (transformOneServoIndex 4 d m) := (if m then 180 - aBRP else aBRP),
        Suc (unat (transformOneServoIndex 4 d m)) := aBRL,
        unat (transformOneServoIndex 6 d m) := (if m then 180 - aFRP else aFRP),
        Suc (unat (transformOneServoIndex 6 d m)) := aFRL]"
proof (cases aDoMove)
  case True
  note staged = transformAndSetAllServos_staged [OF assms]
  obtain t where t: "transformAndSetAllServos lib fuel aFLP aBLP aBRP aFRP aFLL aBLL aBRL aFRL
      d m False s = Some (Returned, t)"
    and bt: "sServoNextPositionArray t = (sServoNextPositionArray s)
       [unat (transformOneServoIndex 0 d m) := (if m then 180 - aFLP else aFLP),
        Suc (unat (transformOneServoIndex 0 d m)) := aFLL,
        unat (transformOneServoIndex 2 d m) := (if m then 180 - aBLP else aBLP),
        Suc (unat (transformOneServoIndex 2 d m)) := aBLL,
        unat (transformOneServoIndex 4 d m) := (if m then 180 - aBRP else aBRP),
        Suc (unat (transformOneServoIndex 4 d m)) := aBRL,
        unat (transformOneServoIndex 6 d m) := (if m then 180 - aFRP else aFRP),
        Suc (unat (transformOneServoIndex 6 d m)) := aFRL]"
    using staged by simp
  obtain r s' where rs: "synchronizeMoveAllServosAndCheckInputAndWait lib fuel t = (r, s')"
    by (cases "synchronizeMoveAllServosAndCheckInputAndWait lib fuel t")
  have "transformAndSetAllServos lib fuel aFLP aBLP aBRP aFRP aFLL aBLL aBRL aFRL d m aDoMove s
          = Some (r, s')"
    using True t rs by (subst transformAndSetAllServos_move) simp
  moreover have "sServoNextPositionArray s' = sServoNextPositionArray t"
    using synchronizeMove_staging [of lib fuel t] rs by simp
  ultimately show thesis
    using bt that by simp
next
  case False
  then show thesis
    using transformAndSetAllServos_staged [OF assms] that by simp
qed

lemma staged_nth:
  fixes xs :: "cint list" and d :: uint8 and m :: bool and p0 l0 p2 l2 p4 l4 p6 l6 :: cint
  assumes "8 \<le> length xs"
  defines "ys \<equiv> xs
       [unat (transformOneServoIndex 0 d m) := p0,
        Suc (unat (transformOneServoIndex 0 d m)) := l0,
        unat (transformOneServoIndex 2 d m) := p2,
        Suc (unat (transformOneServoIndex 2 d m)) := l2,
        unat (transformOneServoIndex 4 d m) := p4,
        Suc (unat (transformOneServoIndex 4 d m)) := l4,
        unat (transformOneServoIndex 6 d m) := p6,
        Suc (unat (transformOneServoIndex 6 d m)) := l6]"
  shows "ys ! unat (transformOneServoIndex 0 d m) = p0"
    and "ys ! unat (transformOneServoIndex 2 d m) = p2"
    and "ys ! unat (transformOneServoIndex 4 d m) = p4"
    and "ys ! unat (transformOneServoIndex 6 d m) = p6"
    and "ys ! Suc (unat (transformOneServoIndex 0 d m)) = l0"
    and "ys ! Suc (unat (transformOneServoIndex 2 d m)) = l2"
    and "ys ! Suc (unat (transformOneServoIndex 4 d m)) = l4"
    and "ys ! Suc (unat (transformOneServoIndex 6 d m)) = l6"
proof -
  have ne: "xs \<noteq> []" using assms(1) by auto
  note t = pivot_index_table [of d m]
  show "ys ! unat (transformOneServoIndex 0 d m) = p0"
    using t assms(1) ne unfolding ys_def by (elim insertE emptyE) simp_all
  show "ys ! unat (transformOneServoIndex 2 d m) = p2"
    using t assms(1) ne unfolding ys_def by (elim insertE emptyE) simp_all
  show "ys ! unat (transformOneServoIndex 4 d m) = p4"
    using t assms(1) ne unfolding ys_def by (elim insertE emptyE) simp_all
  show "ys ! unat (transformOneServoIndex 6 d m) = p6"
    using t assms(1) ne unfolding ys_def by (elim insertE emptyE) simp_all
  show "ys ! Suc (unat (transformOneServoIndex 0 d m)) = l0"
    using t assms(1) ne unfolding ys_def by (elim insertE emptyE) simp_all
  show "ys ! Suc (unat (transformOneServoIndex 2 d m)) = l2"
    using t assms(1) ne unfolding ys_def by (elim insertE emptyE) simp_all
  show "ys ! Suc (unat (transformOneServoIndex 4 d m)) = l4"
    using t assms(1) ne unfolding ys_def by (elim insertE emptyE) simp_all
  show "ys ! Suc (unat (transformOneServoIndex 6 d m)) = l6"
    using t assms(1) ne unfolding ys_def by (elim insertE emptyE) simp_all
qed


lemma transformAndSetPivotServos_staged:
  assumes "NUMBER_OF_SERVOS \<le> length (sServoNextPositionArray s)"
  shows "transformAndSetPivotServos lib fuel aFLP aBLP aBRP aFRP d m False s =
     Some (Returned, s\<lparr>sServoNextPositionArray := (sServoNextPositionArray s)
       [unat (transformOneServoIndex 0 d m) := (if m then 180 - aFLP else aFLP),
        unat (transformOneServoIndex 2 d m) := (if m then 180 - aBLP else aBLP),
        unat (transformOneServoIndex 4 d m) := (if m then 180 - aBRP else aBRP),
        unat (transformOneServoIndex 6 d m) := (if m then 180 - aFRP else aFRP)]\<rparr>)"
proof -
  have len: "8 \<le> length (sServoNextPositionArray s)"
    using assms by (simp add: NUMBER_OF_SERVOS_def)
  note b = pivot_index_le_6 [of d m]
  show ?thesis
    unfolding transformAndSetPivotServos_def Let_def inline_pivot_index
    using len b by (simp add: setNextPosition_def)
qed

lemma pivot_slots_agree:
  fixes xs :: "cint list" and d :: uint8 and m :: bool and p0 l0 p2 l2 p4 l4 p6 l6 :: cint
  assumes "8 \<le> length xs"
  defines "ps \<equiv> xs
       [unat (transformOneServoIndex 0 d m) := p0,
        unat (transformOneServoIndex 2 d m) := p2,
        unat (transformOneServoIndex 4 d m) := p4,
        unat (transformOneServoIndex 6 d m) := p6]"
  defines "ys \<equiv> xs
       [unat (transformOneServoIndex 0 d m) := p0,
        Suc (unat (transformOneServoIndex 0 d m)) := l0,
        unat (transformOneServoIndex 2 d m) := p2,
        Suc (unat (transformOneServoIndex 2 d m)) := l2,
        unat (transformOneServoIndex 4 d m) := p4,
        Suc (unat (transformOneServoIndex 4 d m)) := l4,
        unat (transformOneServoIndex 6 d m) := p6,
        Suc (unat (transformOneServoIndex 6 d m)) := l6]"
  shows "ps ! 0 = ys ! 0 \<and> ps ! 2 = ys ! 2 \<and> ps ! 4 = ys ! 4 \<and> ps ! 6 = ys ! 6"
    and "i \<notin> {0, 2, 4, 6} \<Longrightarrow> ps ! i = xs ! i"
proof -
  have ne: "xs \<noteq> []" using assms(1) by auto
  note t = pivot_index_table [of d m]
  show "ps ! 0 = ys ! 0 \<and> ps ! 2 = ys ! 2 \<and> ps ! 4 = ys ! 4 \<and> ps ! 6 = ys ! 6"
    using t assms(1) ne unfolding ps_def ys_def by (elim insertE emptyE) simp_all
  show "i \<notin> {0, 2, 4, 6} \<Longrightarrow> ps ! i = xs ! i"
    using t unfolding ps_def by (elim insertE emptyE) simp_all
qed

section \<open>The shape of a run of the motion loops\<close>

lemma checkIRInput_events_only:
  "checkIRInput s = s\<lparr>sRequestToStopReceived := sRequestToStopReceived (checkIRInput s),
                        irPending := irPending (checkIRInput s),
                        events := events s @ [PollInput]\<rparr>"
  by (simp add: checkIRInput_def split: list.splits)

lemma delay_frame [simp]:
  "sServoNextPositionArray (delay ms s) = sServoNextPositionArray s"
  "sServoArray (delay ms s) = sServoArray s"
  "sServoTrimAngles (delay ms s) = sServoTrimAngles s"
  "sServoSpeed (delay ms s) = sServoSpeed s"
  "serialOut (delay ms s) = serialOut s"
  "sRequestToStopReceived (delay ms s) = sRequestToStopReceived s"
  "events (delay ms s) = events s @ [Delay ms]"
  by (simp_all add: delay_def)

lemma loop_all_Suc:
  "updateAndCheckInputAndWaitForAllServosToStop lib (Suc fuel) s =
     (if sRequestToStopReceived (checkIRInput s)
      then (Stopped, (checkIRInput s)\<lparr>events := events s @ [PollInput, StopCheck]\<rparr>)
      else if fst (updateAllServos lib (delay (REFRESH_INTERVAL div 1000)
                     ((checkIRInput s)\<lparr>events := events s @ [PollInput, StopCheck]\<rparr>)))
      then (Returned, snd (updateAllServos lib (delay (REFRESH_INTERVAL div 1000)
                     ((checkIRInput s)\<lparr>events := events s @ [PollInput, StopCheck]\<rparr>))))
      else updateAndCheckInputAndWaitForAllServosToStop lib fuel
             (snd (updateAllServos lib (delay (REFRESH_INTERVAL div 1000)
                     ((checkIRInput s)\<lparr>events := events s @ [PollInput, StopCheck]\<rparr>)))))"
  by (simp add: Let_def case_prod_beta RETURN_IF_STOP_def)

lemma loop_one_Suc:
  "moveOneServo_loop lib i (Suc fuel) s =
     (if sRequestToStopReceived (checkIRInput s)
      then (Stopped, (checkIRInput s)\<lparr>events := events s @ [PollInput, StopCheck]\<rparr>)
      else if fst (updateServo lib i (delay (REFRESH_INTERVAL div 1000)
                     ((checkIRInput s)\<lparr>events := events s @ [PollInput, StopCheck]\<rparr>)))
      then (Returned, snd (updateServo lib i (delay (REFRESH_INTERVAL div 1000)
                     ((checkIRInput s)\<lparr>events := events s @ [PollInput, StopCheck]\<rparr>))))
      else moveOneServo_loop lib i fuel
             (snd (updateServo lib i (delay (REFRESH_INTERVAL div 1000)
                     ((checkIRInput s)\<lparr>events := events s @ [PollInput, StopCheck]\<rparr>)))))"
  by (simp add: Let_def case_prod_beta RETURN_IF_STOP_def)

lemma loop_all_events:
  "\<exists>k \<le> fuel.
     events (snd (updateAndCheckInputAndWaitForAllServosToStop lib fuel s)) =
       events s
       @ concat (replicate k [PollInput, StopCheck, Delay (REFRESH_INTERVAL div 1000), UpdateAll])
       @ (if fst (updateAndCheckInputAndWaitForAllServosToStop lib fuel s) = Stopped
          then [PollInput, StopCheck] else []) \<and>
     (fst (updateAndCheckInputAndWaitForAllServosToStop lib fuel s) = Returned \<longrightarrow> 0 < k) \<and>
     (fst (updateAndCheckInputAndWaitForAllServosToStop lib fuel s) = Stopped \<longrightarrow> k < fuel) \<and>
     (fst (updateAndCheckInputAndWaitForAllServosToStop lib fuel s) = StillMoving \<longrightarrow> k = fuel)"
proof (induction fuel arbitrary: s)
  case 0
  then show ?case by simp
next
  case (Suc fuel)
  let ?p = "(checkIRInput s)\<lparr>events := events s @ [PollInput, StopCheck]\<rparr>"
  let ?u = "updateAllServos lib (delay (REFRESH_INTERVAL div 1000) ?p)"
  have ev: "events (snd ?u) =
      events s @ [PollInput, StopCheck, Delay (REFRESH_INTERVAL div 1000), UpdateAll]"
    by simp
  consider (stop) "sRequestToStopReceived (checkIRInput s)"
    | (arrived) "\<not> sRequestToStopReceived (checkIRInput s)" "fst ?u"
    | (more) "\<not> sRequestToStopReceived (checkIRInput s)" "\<not> fst ?u"
    by blast
  then show ?case
  proof cases
    case stop
    then show ?thesis
      by (intro exI [of _ 0]) (simp add: loop_all_Suc del: updateAndCheckInputAndWaitForAllServosToStop.simps)
  next
    case arrived
    then show ?thesis
      by (intro exI [of _ 1]) (simp add: loop_all_Suc ev del: updateAndCheckInputAndWaitForAllServosToStop.simps)
  next
    case more
    from Suc.IH [of "snd ?u"] obtain k where k: "k \<le> fuel"
      "events (snd (updateAndCheckInputAndWaitForAllServosToStop lib fuel (snd ?u))) =
         events (snd ?u)
         @ concat (replicate k [PollInput, StopCheck, Delay (REFRESH_INTERVAL div 1000), UpdateAll])
         @ (if fst (updateAndCheckInputAndWaitForAllServosToStop lib fuel (snd ?u)) = Stopped
            then [PollInput, StopCheck] else [])"
      "fst (updateAndCheckInputAndWaitForAllServosToStop lib fuel (snd ?u)) = Returned \<longrightarrow> 0 < k"
      "fst (updateAndCheckInputAndWaitForAllServosToStop lib fuel (snd ?u)) = Stopped \<longrightarrow> k < fuel"
      "fst (updateAndCheckInputAndWaitForAllServosToStop lib fuel (snd ?u)) = StillMoving \<longrightarrow> k = fuel"
      by blast
    have step: "updateAndCheckInputAndWaitForAllServosToStop lib (Suc fuel) s =
        updateAndCheckInputAndWaitForAllServosToStop lib fuel (snd ?u)"
      using more by (simp add: loop_all_Suc del: updateAndCheckInputAndWaitForAllServosToStop.simps)
    show ?thesis
      unfolding step using k
      by (intro exI [of _ "Suc k"]) (simp add: ev)
  qed
qed


lemma loop_one_events:
  "\<exists>k \<le> fuel.
     events (snd (moveOneServo_loop lib i fuel s)) =
       events s
       @ concat (replicate k [PollInput, StopCheck, Delay (REFRESH_INTERVAL div 1000), UpdateOne i])
       @ (if fst (moveOneServo_loop lib i fuel s) = Stopped
          then [PollInput, StopCheck] else []) \<and>
     (fst (moveOneServo_loop lib i fuel s) = Returned \<longrightarrow> 0 < k) \<and>
     (fst (moveOneServo_loop lib i fuel s) = Stopped \<longrightarrow> k < fuel) \<and>
     (fst (moveOneServo_loop lib i fuel s) = StillMoving \<longrightarrow> k = fuel)"
proof (induction fuel arbitrary: s)
  case 0
  then show ?case by simp
next
  case (Suc fuel)
  let ?p = "(checkIRInput s)\<lparr>events := events s @ [PollInput, StopCheck]\<rparr>"
  let ?u = "updateServo lib i (delay (REFRESH_INTERVAL div 1000) ?p)"
  have ev: "events (snd ?u) =
      events s @ [PollInput, StopCheck, Delay (REFRESH_INTERVAL div 1000), UpdateOne i]"
    by simp
  consider (stop) "sRequestToStopReceived (checkIRInput s)"
    | (arrived) "\<not> sRequestToStopReceived (checkIRInput s)" "fst ?u"
    | (more) "\<not> sRequestToStopReceived (checkIRInput s)" "\<not> fst ?u"
    by blast
  then show ?case
  proof cases
    case stop
    then show ?thesis
      by (intro exI [of _ 0]) (simp add: loop_one_Suc del: moveOneServo_loop.simps)
  next
    case arrived
    then show ?thesis
      by (intro exI [of _ 1]) (simp add: loop_one_Suc ev del: moveOneServo_loop.simps)
  next
    case more
    from Suc.IH [of "snd ?u"] obtain k where k: "k \<le> fuel"
      "events (snd (moveOneServo_loop lib i fuel (snd ?u))) =
         events (snd ?u)
         @ concat (replicate k [PollInput, StopCheck, Delay (REFRESH_INTERVAL div 1000), UpdateOne i])
         @ (if fst (moveOneServo_loop lib i fuel (snd ?u)) = Stopped
            then [PollInput, StopCheck] else [])"
      "fst (moveOneServo_loop lib i fuel (snd ?u)) = Returned \<longrightarrow> 0 < k"
      "fst (moveOneServo_loop lib i fuel (snd ?u)) = Stopped \<longrightarrow> k < fuel"
      "fst (moveOneServo_loop lib i fuel (snd ?u)) = StillMoving \<longrightarrow> k = fuel"
      by blast
    have step: "moveOneServo_loop lib i (Suc fuel) s = moveOneServo_loop lib i fuel (snd ?u)"
      using more by (simp add: loop_one_Suc del: moveOneServo_loop.simps)
    show ?thesis
      unfolding step using k
      by (intro exI [of _ "Suc k"]) (simp add: ev)
  qed
qed

lemma loop_round_all_eq:
  "loop_round_all lib s =
     snd (updateAllServos lib (delay (REFRESH_INTERVAL div 1000)
            ((checkIRInput s)\<lparr>events := events s @ [PollInput, StopCheck]\<rparr>)))"
  by (simp add: loop_round_all_def)

lemma loop_round_one_eq:
  "loop_round_one lib i s =
     snd (updateServo lib i (delay (REFRESH_INTERVAL div 1000)
            ((checkIRInput s)\<lparr>events := events s @ [PollInput, StopCheck]\<rparr>)))"
  by (simp add: loop_round_one_def)

lemma loop_round_staging [simp]:
  "sServoNextPositionArray ((loop_round_all lib ^^ k) s) = sServoNextPositionArray s"
  "sServoNextPositionArray ((loop_round_one lib i ^^ k) s) = sServoNextPositionArray s"
  by (induction k) (simp_all add: loop_round_all_eq loop_round_one_eq)

lemma loop_all_Stopped:
  assumes "updateAndCheckInputAndWaitForAllServosToStop lib fuel s = (Stopped, s')"
  shows "\<exists>k < fuel.
           sRequestToStopReceived (checkIRInput ((loop_round_all lib ^^ k) s)) \<and>
           s' = (checkIRInput ((loop_round_all lib ^^ k) s))
                  \<lparr>events := events ((loop_round_all lib ^^ k) s) @ [PollInput, StopCheck]\<rparr>"
  using assms
proof (induction fuel arbitrary: s)
  case 0
  then show ?case by simp
next
  case (Suc fuel)
  show ?case
  proof (cases "sRequestToStopReceived (checkIRInput s)")
    case True
    with Suc.prems show ?thesis
      by (intro exI [of _ 0])
         (simp add: loop_all_Suc del: updateAndCheckInputAndWaitForAllServosToStop.simps)
  next
    case False
    with Suc.prems have
      "updateAndCheckInputAndWaitForAllServosToStop lib fuel (loop_round_all lib s) = (Stopped, s')"
      by (simp add: loop_all_Suc loop_round_all_eq split: if_splits
          del: updateAndCheckInputAndWaitForAllServosToStop.simps)
    from Suc.IH [OF this] obtain k where k: "k < fuel"
      "sRequestToStopReceived (checkIRInput ((loop_round_all lib ^^ k) (loop_round_all lib s)))"
      "s' = (checkIRInput ((loop_round_all lib ^^ k) (loop_round_all lib s)))
              \<lparr>events := events ((loop_round_all lib ^^ k) (loop_round_all lib s))
                 @ [PollInput, StopCheck]\<rparr>"
      by blast
    then show ?thesis
      by (intro exI [of _ "Suc k"]) (simp add: funpow_swap1)
  qed
qed

lemma loop_one_Stopped:
  assumes "moveOneServo_loop lib i fuel s = (Stopped, s')"
  shows "\<exists>k < fuel.
           sRequestToStopReceived (checkIRInput ((loop_round_one lib i ^^ k) s)) \<and>
           s' = (checkIRInput ((loop_round_one lib i ^^ k) s))
                  \<lparr>events := events ((loop_round_one lib i ^^ k) s) @ [PollInput, StopCheck]\<rparr>"
  using assms
proof (induction fuel arbitrary: s)
  case 0
  then show ?case by simp
next
  case (Suc fuel)
  show ?case
  proof (cases "sRequestToStopReceived (checkIRInput s)")
    case True
    with Suc.prems show ?thesis
      by (intro exI [of _ 0]) (simp add: loop_one_Suc del: moveOneServo_loop.simps)
  next
    case False
    with Suc.prems have
      "moveOneServo_loop lib i fuel (loop_round_one lib i s) = (Stopped, s')"
      by (simp add: loop_one_Suc loop_round_one_eq split: if_splits
          del: moveOneServo_loop.simps)
    from Suc.IH [OF this] obtain k where k: "k < fuel"
      "sRequestToStopReceived (checkIRInput ((loop_round_one lib i ^^ k) (loop_round_one lib i s)))"
      "s' = (checkIRInput ((loop_round_one lib i ^^ k) (loop_round_one lib i s)))
              \<lparr>events := events ((loop_round_one lib i ^^ k) (loop_round_one lib i s))
                 @ [PollInput, StopCheck]\<rparr>"
      by blast
    then show ?thesis
      by (intro exI [of _ "Suc k"]) (simp add: funpow_swap1)
  qed
qed

lemma loop_all_turn:
  "updateAndCheckInputAndWaitForAllServosToStop lib (Suc fuel) s =
     (if sRequestToStopReceived (checkIRInput s)
      then (Stopped, (checkIRInput s)\<lparr>events := events s @ [PollInput, StopCheck]\<rparr>)
      else if loop_done_all lib s then (Returned, loop_round_all lib s)
      else updateAndCheckInputAndWaitForAllServosToStop lib fuel (loop_round_all lib s))"
  by (simp add: loop_all_Suc loop_done_all_def loop_round_all_eq
      del: updateAndCheckInputAndWaitForAllServosToStop.simps)

lemma loop_one_turn:
  "moveOneServo_loop lib i (Suc fuel) s =
     (if sRequestToStopReceived (checkIRInput s)
      then (Stopped, (checkIRInput s)\<lparr>events := events s @ [PollInput, StopCheck]\<rparr>)
      else if loop_done_one lib i s then (Returned, loop_round_one lib i s)
      else moveOneServo_loop lib i fuel (loop_round_one lib i s))"
  by (simp add: loop_one_Suc loop_done_one_def loop_round_one_eq
      del: moveOneServo_loop.simps)

lemma loop_round_events:
  "events (loop_round_all lib s) =
     events s @ [PollInput, StopCheck, Delay (REFRESH_INTERVAL div 1000), UpdateAll]"
  "events (loop_round_one lib i s) =
     events s @ [PollInput, StopCheck, Delay (REFRESH_INTERVAL div 1000), UpdateOne i]"
  by (simp_all add: loop_round_all_eq loop_round_one_eq)

lemma loop_all_run:
  "\<exists>k \<le> fuel.
     (\<forall>j < k. \<not> sRequestToStopReceived (checkIRInput ((loop_round_all lib ^^ j) s))) \<and>
     (\<forall>j < k. loop_done_all lib ((loop_round_all lib ^^ j) s) =
                (fst (updateAndCheckInputAndWaitForAllServosToStop lib fuel s) = Returned
                 \<and> Suc j = k)) \<and>
     (fst (updateAndCheckInputAndWaitForAllServosToStop lib fuel s) = Returned \<longrightarrow>
        0 < k \<and>
        snd (updateAndCheckInputAndWaitForAllServosToStop lib fuel s)
          = (loop_round_all lib ^^ k) s) \<and>
     (fst (updateAndCheckInputAndWaitForAllServosToStop lib fuel s) = Stopped \<longrightarrow>
        k < fuel \<and>
        sRequestToStopReceived (checkIRInput ((loop_round_all lib ^^ k) s)) \<and>
        snd (updateAndCheckInputAndWaitForAllServosToStop lib fuel s)
          = (checkIRInput ((loop_round_all lib ^^ k) s))
              \<lparr>events := events ((loop_round_all lib ^^ k) s) @ [PollInput, StopCheck]\<rparr>) \<and>
     (fst (updateAndCheckInputAndWaitForAllServosToStop lib fuel s) = StillMoving \<longrightarrow>
        k = fuel \<and>
        snd (updateAndCheckInputAndWaitForAllServosToStop lib fuel s)
          = (loop_round_all lib ^^ k) s) \<and>
     events ((loop_round_all lib ^^ k) s) =
       events s
       @ concat (replicate k [PollInput, StopCheck, Delay (REFRESH_INTERVAL div 1000), UpdateAll])"
proof (induction fuel arbitrary: s)
  case 0
  then show ?case by simp
next
  case (Suc fuel)
  let ?L = "updateAndCheckInputAndWaitForAllServosToStop lib"
  let ?R = "loop_round_all lib"
  consider (stop) "sRequestToStopReceived (checkIRInput s)"
    | (arrived) "\<not> sRequestToStopReceived (checkIRInput s)" "loop_done_all lib s"
    | (more) "\<not> sRequestToStopReceived (checkIRInput s)" "\<not> loop_done_all lib s"
    by blast
  then show ?case
  proof cases
    case stop
    then show ?thesis
      by (intro exI [of _ 0])
         (simp add: loop_all_turn del: updateAndCheckInputAndWaitForAllServosToStop.simps)
  next
    case arrived
    then show ?thesis
      by (intro exI [of _ "Suc 0"])
         (simp add: loop_all_turn loop_round_events
            del: updateAndCheckInputAndWaitForAllServosToStop.simps)
  next
    case more
    have step: "?L (Suc fuel) s = ?L fuel (?R s)"
      using more by (simp add: loop_all_turn del: updateAndCheckInputAndWaitForAllServosToStop.simps)
    from Suc.IH [of "?R s"] obtain k where k: "k \<le> fuel"
      "\<forall>j < k. \<not> sRequestToStopReceived (checkIRInput ((?R ^^ j) (?R s)))"
      "\<forall>j < k. loop_done_all lib ((?R ^^ j) (?R s)) =
                (fst (?L fuel (?R s)) = Returned \<and> Suc j = k)"
      "fst (?L fuel (?R s)) = Returned \<longrightarrow>
         0 < k \<and> snd (?L fuel (?R s)) = (?R ^^ k) (?R s)"
      "fst (?L fuel (?R s)) = Stopped \<longrightarrow>
         k < fuel \<and> sRequestToStopReceived (checkIRInput ((?R ^^ k) (?R s))) \<and>
         snd (?L fuel (?R s)) = (checkIRInput ((?R ^^ k) (?R s)))
              \<lparr>events := events ((?R ^^ k) (?R s)) @ [PollInput, StopCheck]\<rparr>"
      "fst (?L fuel (?R s)) = StillMoving \<longrightarrow>
         k = fuel \<and> snd (?L fuel (?R s)) = (?R ^^ k) (?R s)"
      "events ((?R ^^ k) (?R s)) =
         events (?R s)
         @ concat (replicate k [PollInput, StopCheck, Delay (REFRESH_INTERVAL div 1000), UpdateAll])"
      by blast
    have sw: "(?R ^^ j) (?R s) = (?R ^^ Suc j) s" for j
      by (simp add: funpow_swap1)
    have a: "\<forall>j < Suc k. \<not> sRequestToStopReceived (checkIRInput ((?R ^^ j) s))"
      unfolding All_less_Suc2 using more(1) k(2) by (simp add: funpow_swap1)
    have b: "\<forall>j < Suc k. loop_done_all lib ((?R ^^ j) s) =
                (fst (?L fuel (?R s)) = Returned \<and> Suc j = Suc k)"
      unfolding All_less_Suc2 using more(2) k(3,4) by (auto simp: funpow_swap1)
    have c: "events ((?R ^^ Suc k) s) =
         events s
         @ concat (replicate (Suc k)
             [PollInput, StopCheck, Delay (REFRESH_INTERVAL div 1000), UpdateAll])"
      using k(7) unfolding sw by (simp add: loop_round_events)
    show ?thesis
      unfolding step
      using k(1) a b c k(4,5,6) unfolding sw
      by (intro exI [of _ "Suc k"]) simp
  qed
qed

lemma loop_one_run:
  "\<exists>k \<le> fuel.
     (\<forall>j < k. \<not> sRequestToStopReceived (checkIRInput ((loop_round_one lib i ^^ j) s))) \<and>
     (\<forall>j < k. loop_done_one lib i ((loop_round_one lib i ^^ j) s) =
                (fst (moveOneServo_loop lib i fuel s) = Returned
                 \<and> Suc j = k)) \<and>
     (fst (moveOneServo_loop lib i fuel s) = Returned \<longrightarrow>
        0 < k \<and>
        snd (moveOneServo_loop lib i fuel s)
          = (loop_round_one lib i ^^ k) s) \<and>
     (fst (moveOneServo_loop lib i fuel s) = Stopped \<longrightarrow>
        k < fuel \<and>
        sRequestToStopReceived (checkIRInput ((loop_round_one lib i ^^ k) s)) \<and>
        snd (moveOneServo_loop lib i fuel s)
          = (checkIRInput ((loop_round_one lib i ^^ k) s))
              \<lparr>events := events ((loop_round_one lib i ^^ k) s) @ [PollInput, StopCheck]\<rparr>) \<and>
     (fst (moveOneServo_loop lib i fuel s) = StillMoving \<longrightarrow>
        k = fuel \<and>
        snd (moveOneServo_loop lib i fuel s)
          = (loop_round_one lib i ^^ k) s) \<and>
     events ((loop_round_one lib i ^^ k) s) =
       events s
       @ concat (replicate k [PollInput, StopCheck, Delay (REFRESH_INTERVAL div 1000), UpdateOne i])"
proof (induction fuel arbitrary: s)
  case 0
  then show ?case by simp
next
  case (Suc fuel)
  let ?L = "moveOneServo_loop lib i"
  let ?R = "loop_round_one lib i"
  consider (stop) "sRequestToStopReceived (checkIRInput s)"
    | (arrived) "\<not> sRequestToStopReceived (checkIRInput s)" "loop_done_one lib i s"
    | (more) "\<not> sRequestToStopReceived (checkIRInput s)" "\<not> loop_done_one lib i s"
    by blast
  then show ?case
  proof cases
    case stop
    then show ?thesis
      by (intro exI [of _ 0])
         (simp add: loop_one_turn del: moveOneServo_loop.simps)
  next
    case arrived
    then show ?thesis
      by (intro exI [of _ "Suc 0"])
         (simp add: loop_one_turn loop_round_events
            del: moveOneServo_loop.simps)
  next
    case more
    have step: "?L (Suc fuel) s = ?L fuel (?R s)"
      using more by (simp add: loop_one_turn del: moveOneServo_loop.simps)
    from Suc.IH [of "?R s"] obtain k where k: "k \<le> fuel"
      "\<forall>j < k. \<not> sRequestToStopReceived (checkIRInput ((?R ^^ j) (?R s)))"
      "\<forall>j < k. loop_done_one lib i ((?R ^^ j) (?R s)) =
                (fst (?L fuel (?R s)) = Returned \<and> Suc j = k)"
      "fst (?L fuel (?R s)) = Returned \<longrightarrow>
         0 < k \<and> snd (?L fuel (?R s)) = (?R ^^ k) (?R s)"
      "fst (?L fuel (?R s)) = Stopped \<longrightarrow>
         k < fuel \<and> sRequestToStopReceived (checkIRInput ((?R ^^ k) (?R s))) \<and>
         snd (?L fuel (?R s)) = (checkIRInput ((?R ^^ k) (?R s)))
              \<lparr>events := events ((?R ^^ k) (?R s)) @ [PollInput, StopCheck]\<rparr>"
      "fst (?L fuel (?R s)) = StillMoving \<longrightarrow>
         k = fuel \<and> snd (?L fuel (?R s)) = (?R ^^ k) (?R s)"
      "events ((?R ^^ k) (?R s)) =
         events (?R s)
         @ concat (replicate k [PollInput, StopCheck, Delay (REFRESH_INTERVAL div 1000), UpdateOne i])"
      by blast
    have sw: "(?R ^^ j) (?R s) = (?R ^^ Suc j) s" for j
      by (simp add: funpow_swap1)
    have a: "\<forall>j < Suc k. \<not> sRequestToStopReceived (checkIRInput ((?R ^^ j) s))"
      unfolding All_less_Suc2 using more(1) k(2) by (simp add: funpow_swap1)
    have b: "\<forall>j < Suc k. loop_done_one lib i ((?R ^^ j) s) =
                (fst (?L fuel (?R s)) = Returned \<and> Suc j = Suc k)"
      unfolding All_less_Suc2 using more(2) k(3,4) by (auto simp: funpow_swap1)
    have c: "events ((?R ^^ Suc k) s) =
         events s
         @ concat (replicate (Suc k)
             [PollInput, StopCheck, Delay (REFRESH_INTERVAL div 1000), UpdateOne i])"
      using k(7) unfolding sw by (simp add: loop_round_events)
    show ?thesis
      unfolding step
      using k(1) a b c k(4,5,6) unfolding sw
      by (intro exI [of _ "Suc k"]) simp
  qed
qed

lemma loop_all_run_events:
  "(\<exists>k \<le> fuel.
      (\<forall>j < k. \<not> sRequestToStopReceived (checkIRInput ((loop_round_all lib ^^ j) s))) \<and>
      (\<forall>j < k. loop_done_all lib ((loop_round_all lib ^^ j) s) = (fst (updateAndCheckInputAndWaitForAllServosToStop lib fuel s) = Returned \<and> Suc j = k)) \<and>
      (fst (updateAndCheckInputAndWaitForAllServosToStop lib fuel s) = Returned \<longrightarrow> 0 < k \<and> snd (updateAndCheckInputAndWaitForAllServosToStop lib fuel s) = (loop_round_all lib ^^ k) s) \<and>
      (fst (updateAndCheckInputAndWaitForAllServosToStop lib fuel s) = Stopped \<longrightarrow>
         k < fuel \<and> sRequestToStopReceived (checkIRInput ((loop_round_all lib ^^ k) s))) \<and>
      (fst (updateAndCheckInputAndWaitForAllServosToStop lib fuel s) = StillMoving \<longrightarrow> k = fuel) \<and>
      events (snd (updateAndCheckInputAndWaitForAllServosToStop lib fuel s)) =
        events s
        @ concat (replicate k [PollInput, StopCheck, Delay (REFRESH_INTERVAL div 1000), UpdateAll])
        @ (if fst (updateAndCheckInputAndWaitForAllServosToStop lib fuel s) = Stopped then [PollInput, StopCheck] else []))"
proof -
  from loop_all_run [of fuel lib s] obtain k where k: "k \<le> fuel"
    and rest: "(\<forall>j < k. \<not> sRequestToStopReceived (checkIRInput ((loop_round_all lib ^^ j) s))) \<and>
     (\<forall>j < k. loop_done_all lib ((loop_round_all lib ^^ j) s) =
                (fst (updateAndCheckInputAndWaitForAllServosToStop lib fuel s) = Returned
                 \<and> Suc j = k)) \<and>
     (fst (updateAndCheckInputAndWaitForAllServosToStop lib fuel s) = Returned \<longrightarrow>
        0 < k \<and>
        snd (updateAndCheckInputAndWaitForAllServosToStop lib fuel s)
          = (loop_round_all lib ^^ k) s) \<and>
     (fst (updateAndCheckInputAndWaitForAllServosToStop lib fuel s) = Stopped \<longrightarrow>
        k < fuel \<and>
        sRequestToStopReceived (checkIRInput ((loop_round_all lib ^^ k) s)) \<and>
        snd (updateAndCheckInputAndWaitForAllServosToStop lib fuel s)
          = (checkIRInput ((loop_round_all lib ^^ k) s))
              \<lparr>events := events ((loop_round_all lib ^^ k) s) @ [PollInput, StopCheck]\<rparr>) \<and>
     (fst (updateAndCheckInputAndWaitForAllServosToStop lib fuel s) = StillMoving \<longrightarrow>
        k = fuel \<and>
        snd (updateAndCheckInputAndWaitForAllServosToStop lib fuel s)
          = (loop_round_all lib ^^ k) s) \<and>
     events ((loop_round_all lib ^^ k) s) =
       events s
       @ concat (replicate k [PollInput, StopCheck, Delay (REFRESH_INTERVAL div 1000), UpdateAll])"
    by blast
  show ?thesis
    using k rest
    by (intro exI [of _ k])
       (cases "fst (updateAndCheckInputAndWaitForAllServosToStop lib fuel s)"; auto)
qed

lemma loop_one_run_events:
  "(\<exists>k \<le> fuel.
      (\<forall>j < k. \<not> sRequestToStopReceived (checkIRInput ((loop_round_one lib i ^^ j) s))) \<and>
      (\<forall>j < k. loop_done_one lib i ((loop_round_one lib i ^^ j) s) = (fst (moveOneServo_loop lib i fuel s) = Returned \<and> Suc j = k)) \<and>
      (fst (moveOneServo_loop lib i fuel s) = Returned \<longrightarrow> 0 < k \<and> snd (moveOneServo_loop lib i fuel s) = (loop_round_one lib i ^^ k) s) \<and>
      (fst (moveOneServo_loop lib i fuel s) = Stopped \<longrightarrow>
         k < fuel \<and> sRequestToStopReceived (checkIRInput ((loop_round_one lib i ^^ k) s))) \<and>
      (fst (moveOneServo_loop lib i fuel s) = StillMoving \<longrightarrow> k = fuel) \<and>
      events (snd (moveOneServo_loop lib i fuel s)) =
        events s
        @ concat (replicate k [PollInput, StopCheck, Delay (REFRESH_INTERVAL div 1000), UpdateOne i])
        @ (if fst (moveOneServo_loop lib i fuel s) = Stopped then [PollInput, StopCheck] else []))"
proof -
  from loop_one_run [of fuel lib i s] obtain k where k: "k \<le> fuel"
    and rest: "(\<forall>j < k. \<not> sRequestToStopReceived (checkIRInput ((loop_round_one lib i ^^ j) s))) \<and>
     (\<forall>j < k. loop_done_one lib i ((loop_round_one lib i ^^ j) s) =
                (fst (moveOneServo_loop lib i fuel s) = Returned
                 \<and> Suc j = k)) \<and>
     (fst (moveOneServo_loop lib i fuel s) = Returned \<longrightarrow>
        0 < k \<and>
        snd (moveOneServo_loop lib i fuel s)
          = (loop_round_one lib i ^^ k) s) \<and>
     (fst (moveOneServo_loop lib i fuel s) = Stopped \<longrightarrow>
        k < fuel \<and>
        sRequestToStopReceived (checkIRInput ((loop_round_one lib i ^^ k) s)) \<and>
        snd (moveOneServo_loop lib i fuel s)
          = (checkIRInput ((loop_round_one lib i ^^ k) s))
              \<lparr>events := events ((loop_round_one lib i ^^ k) s) @ [PollInput, StopCheck]\<rparr>) \<and>
     (fst (moveOneServo_loop lib i fuel s) = StillMoving \<longrightarrow>
        k = fuel \<and>
        snd (moveOneServo_loop lib i fuel s)
          = (loop_round_one lib i ^^ k) s) \<and>
     events ((loop_round_one lib i ^^ k) s) =
       events s
       @ concat (replicate k [PollInput, StopCheck, Delay (REFRESH_INTERVAL div 1000), UpdateOne i])"
    by blast
  show ?thesis
    using k rest
    by (intro exI [of _ k])
       (cases "fst (moveOneServo_loop lib i fuel s)"; auto)
qed

section \<open>Sequences of assignments to the staging buffer\<close>

lemma setNextPositions_append:
  "setNextPositions (ws @ [(j, v)]) s =
     (case setNextPositions ws s of None \<Rightarrow> None | Some s' \<Rightarrow> setNextPosition j v s')"
  by (induction ws arbitrary: s) (auto split: option.splits)

lemma setNextPositions_buffer:
  assumes "\<forall>(j, v) \<in> set ws. j < length (sServoNextPositionArray s)"
  shows "\<exists>s'. setNextPositions ws s = Some s' \<and>
           length (sServoNextPositionArray s') = length (sServoNextPositionArray s) \<and>
           s' = s\<lparr>sServoNextPositionArray := sServoNextPositionArray s'\<rparr> \<and>
           (\<forall>i < length (sServoNextPositionArray s).
              sServoNextPositionArray s' ! i =
                (case map_of (rev ws) i of None \<Rightarrow> sServoNextPositionArray s ! i | Some v \<Rightarrow> v))"
  using assms
proof (induction ws rule: rev_induct)
  case Nil
  then show ?case by simp
next
  case (snoc w ws)
  obtain j v where w: "w = (j, v)" by (cases w)
  from snoc.prems have "\<forall>(j, v) \<in> set ws. j < length (sServoNextPositionArray s)"
    by simp
  from snoc.IH [OF this] obtain s' where
    run: "setNextPositions ws s = Some s'"
    and len: "length (sServoNextPositionArray s') = length (sServoNextPositionArray s)"
    and frame: "s' = s\<lparr>sServoNextPositionArray := sServoNextPositionArray s'\<rparr>"
    and val: "\<forall>i < length (sServoNextPositionArray s).
              sServoNextPositionArray s' ! i =
                (case map_of (rev ws) i of None \<Rightarrow> sServoNextPositionArray s ! i | Some v \<Rightarrow> v)"
    by blast
  from snoc.prems w have j: "j < length (sServoNextPositionArray s)"
    by simp
  let ?s'' = "s'\<lparr>sServoNextPositionArray := (sServoNextPositionArray s')[j := v]\<rparr>"
  have "setNextPositions (ws @ [w]) s = Some ?s''"
    using run j len by (simp add: w setNextPositions_append setNextPosition_def)
  moreover have "length (sServoNextPositionArray ?s'') = length (sServoNextPositionArray s)"
    using len by simp
  moreover have "?s'' = s\<lparr>sServoNextPositionArray := sServoNextPositionArray ?s''\<rparr>"
    by (subst frame) simp
  moreover have "\<forall>i < length (sServoNextPositionArray s).
              sServoNextPositionArray ?s'' ! i =
                (case map_of (rev (ws @ [w])) i of None \<Rightarrow> sServoNextPositionArray s ! i
                 | Some v \<Rightarrow> v)"
    using val len j by (simp add: w nth_list_update)
  ultimately show ?case by blast
qed

lemma setAllServos_writes:
  "setAllServos lib fuel aFLP aBLP aBRP aFRP aFLL aBLL aBRL aFRL s =
     (case setNextPositions
             [(FRONT_LEFT_PIVOT, aFLP), (BACK_LEFT_PIVOT, aBLP), (BACK_RIGHT_PIVOT, aBRP),
              (FRONT_RIGHT_PIVOT, aFRP), (FRONT_LEFT_LIFT, aFLL), (BACK_LEFT_LIFT, aBLL),
              (BACK_RIGHT_LIFT, aBRL), (FRONT_RIGHT_LIFT, aFRL)] s of
        None \<Rightarrow> None
      | Some s' \<Rightarrow> Some (synchronizeMoveAllServosAndCheckInputAndWait lib fuel s'))"
  by (simp add: setAllServos_def split: Option.bind_split option.splits)

text \<open>
  A call that stages without moving makes the assignments of \<open>writes_of\<close>, in that
  order, and a sequence of such calls makes them one call after the other.
\<close>

lemma writes_of_in_range: "\<forall>(j, v) \<in> set (writes_of c). j < 8"
proof (cases c)
  case (TransformAll aFLP aBLP aBRP aFRP aFLL aBLL aBRL aFRL d m)
  show ?thesis
    unfolding TransformAll using pivot_index_le_6 [of d m] by simp
next
  case (TransformPivots aFLP aBLP aBRP aFRP d m)
  show ?thesis
    unfolding TransformPivots using pivot_index_le_6 [of d m] by simp
qed

lemma stage_call_writes:
  assumes "NUMBER_OF_SERVOS \<le> length (sServoNextPositionArray s)"
  shows "stage_call lib c s = setNextPositions (writes_of c) s"
proof -
  have len: "8 \<le> length (sServoNextPositionArray s)"
    using assms by (simp add: NUMBER_OF_SERVOS_def)
  show ?thesis
  proof (cases c)
    case (TransformAll aFLP aBLP aBRP aFRP aFLL aBLL aBRL aFRL d m)
    note b = pivot_index_le_6 [of d m]
    show ?thesis
      unfolding TransformAll stage_call.simps transformAndSetAllServos_staged [OF assms]
      using len b by (simp add: setNextPosition_def)
  next
    case (TransformPivots aFLP aBLP aBRP aFRP d m)
    note b = pivot_index_le_6 [of d m]
    show ?thesis
      unfolding TransformPivots stage_call.simps transformAndSetPivotServos_staged [OF assms]
      using len b by (simp add: setNextPosition_def)
  qed
qed

lemma setNextPositions_app:
  "setNextPositions (ws @ ws') s =
     (case setNextPositions ws s of None \<Rightarrow> None | Some s' \<Rightarrow> setNextPositions ws' s')"
  by (induction ws arbitrary: s) (auto split: option.splits)

lemma stage_calls_writes:
  assumes "NUMBER_OF_SERVOS \<le> length (sServoNextPositionArray s)"
  shows "stage_calls lib cs s = setNextPositions (concat (map writes_of cs)) s"
  using assms
proof (induction cs arbitrary: s)
  case Nil
  then show ?case by simp
next
  case (Cons c cs)
  have "\<forall>(j, v) \<in> set (writes_of c). j < length (sServoNextPositionArray s)"
    using writes_of_in_range [of c] Cons.prems by (fastforce simp: NUMBER_OF_SERVOS_def)
  from setNextPositions_buffer [OF this] obtain s' where
    s': "setNextPositions (writes_of c) s = Some s'"
    "length (sServoNextPositionArray s') = length (sServoNextPositionArray s)"
    by blast
  then have "NUMBER_OF_SERVOS \<le> length (sServoNextPositionArray s')"
    using Cons.prems by simp
  from Cons.IH [OF this] show ?case
    by (simp add: stage_call_writes [OF Cons.prems] s'(1) setNextPositions_app)
qed

lemma synchronizeMove_unfold:
  "synchronizeMoveAllServosAndCheckInputAndWait lib fuel s =
     updateAndCheckInputAndWaitForAllServosToStop lib fuel
       (s\<lparr>sServoArray := lib_synchronizeAllServosAndStartInterrupt lib False
             (lib_setEaseToForAllServos lib (sServoNextPositionArray s) (sServoArray s))\<rparr>)"
  by (simp add: synchronizeMoveAllServosAndCheckInputAndWait_def Let_def
      setEaseToForAllServos_def synchronizeAllServosAndStartInterrupt_def)

lemma writes_of_setAllServos_lookup:
  assumes "i < NUMBER_OF_SERVOS"
  shows "map_of (rev (writes_of_setAllServos aFLP aBLP aBRP aFRP aFLL aBLL aBRL aFRL)) i
         = map_of (writes_of_setAllServos aFLP aBLP aBRP aFRP aFLL aBLL aBRL aFRL) i"
    and "map_of (writes_of_setAllServos aFLP aBLP aBRP aFRP aFLL aBLL aBRL aFRL) i \<noteq> None"
proof -
  let ?W = "writes_of_setAllServos aFLP aBLP aBRP aFRP aFLL aBLL aBRL aFRL"
  have slots: "map fst ?W = [0, 2, 4, 6, 1, 3, 5, 7]"
    by (simp add: writes_of_setAllServos_def config_defs)
  have "distinct (map fst ?W)"
    unfolding slots by simp
  moreover from this have "distinct (map fst (rev ?W))"
    unfolding rev_map [symmetric] distinct_rev .
  ultimately have "map_of (rev ?W) = map_of ?W"
    by (simp add: map_of_inject_set)
  then show "map_of (rev ?W) i = map_of ?W i"
    by simp
  have "i \<in> set (map fst ?W)"
    unfolding slots using assms by (auto simp: NUMBER_OF_SERVOS_def)
  then show "map_of ?W i \<noteq> None"
    by (simp add: map_of_eq_None_iff)
qed

section \<open>The transformation on the posture of \<open>testTransform\<close>\<close>

text \<open>
  The calls of \<open>testTransform\<close>, run on the start-up state: the staging buffer after
  each. Forward without mirror leaves the canonical order, forward with mirror reverses
  the legs and inverts the pivot angles, backward shifts by four slots.
\<close>

lemma testTransform_forward:
  "map_option (\<lambda>(r, s'). sServoNextPositionArray s')
     (transformAndSetAllServos step_lib 0 180 1 135 30 111 0 0 0
        MOVE_DIRECTION_FORWARD False False startup_robot)
   = Some [180, 111, 1, 0, 135, 0, 30, 0]"
  by code_simp

lemma testTransform_forward_mirrored:
  "map_option (\<lambda>(r, s'). sServoNextPositionArray s')
     (transformAndSetAllServos step_lib 0 180 1 135 30 111 0 0 0
        MOVE_DIRECTION_FORWARD True False startup_robot)
   = Some [150, 0, 45, 0, 179, 0, 0, 111]"
  by code_simp

lemma testTransform_backward:
  "map_option (\<lambda>(r, s'). sServoNextPositionArray s')
     (transformAndSetAllServos step_lib 0 180 1 135 30 111 0 0 0
        MOVE_DIRECTION_BACKWARD False False startup_robot)
   = Some [135, 0, 30, 0, 180, 111, 1, 0]"
  by code_simp

lemma testTransform_left_mirrored:
  "map_option (\<lambda>(r, s'). sServoNextPositionArray s')
     (transformAndSetAllServos step_lib 0 180 1 135 30 111 0 0 0
        MOVE_DIRECTION_LEFT True False startup_robot)
   = Some [0, 111, 150, 0, 45, 0, 179, 0]"
  by code_simp

text \<open>The definitions to unfold when the model is run on a concrete state.\<close>

lemmas run_defs =
  startup_robot_def step_lib_def step_update_def updateAllServos_def updateServo_def
  checkIRInput_def RETURN_IF_STOP_def delay_def Let_def REFRESH_INTERVAL_def

lemma startup_runs:
  "fst (updateAndCheckInputAndWaitForAllServosToStop step_lib (Suc 0) startup_robot) = Returned"
  "fst (moveOneServo_loop step_lib 0 (Suc 0) startup_robot) = Returned"
  "events startup_robot = []"
  "fst (moveOneServo_loop step_lib 0 (Suc (Suc 0)) stop_pending_robot) = Stopped"
  "events stop_pending_robot = []"
  by (simp_all add: stop_pending_robot_def run_defs list_all_iff)

lemma checkIRInput_servos_irrelevant:
  "sRequestToStopReceived (checkIRInput (s\<lparr>sServoArray := servos\<rparr>))
     = sRequestToStopReceived (checkIRInput s)"
  "events (s\<lparr>sServoArray := servos\<rparr>) = events s"
  by (simp_all add: checkIRInput_def split: list.splits)

lemma loop_one_first_turn:
  assumes "\<not> sRequestToStopReceived (checkIRInput s)"
  shows "\<exists>rest. events (snd (moveOneServo_loop lib i (Suc fuel) s)) =
           events s @ [PollInput, StopCheck, Delay (REFRESH_INTERVAL div 1000), UpdateOne i] @ rest"
proof -
  let ?p = "(checkIRInput s)\<lparr>events := events s @ [PollInput, StopCheck]\<rparr>"
  let ?u = "updateServo lib i (delay (REFRESH_INTERVAL div 1000) ?p)"
  have ev: "events (snd ?u) =
      events s @ [PollInput, StopCheck, Delay (REFRESH_INTERVAL div 1000), UpdateOne i]"
    by simp
  show ?thesis
  proof (cases "fst ?u")
    case True
    with assms have "moveOneServo_loop lib i (Suc fuel) s = (Returned, snd ?u)"
      by (simp add: loop_one_Suc del: moveOneServo_loop.simps)
    then show ?thesis
      using ev by simp
  next
    case False
    with assms have step: "moveOneServo_loop lib i (Suc fuel) s
        = moveOneServo_loop lib i fuel (snd ?u)"
      by (simp add: loop_one_Suc del: moveOneServo_loop.simps)
    from loop_one_events [of fuel lib i "snd ?u"]
    obtain rest where "events (snd (moveOneServo_loop lib i fuel (snd ?u)))
        = events (snd ?u) @ rest"
      by blast
    then show ?thesis
      unfolding step ev by simp
  qed
qed

text \<open>
  A stop request in the middle of a motion. Servo 0 is to go from 90 to 92 degrees; the
  first poll sees nothing, the servo advances to 91, the second poll sees the stop
  request and the loop is left: the servo stays at 91.
\<close>

lemma stop_pending_run:
  "fst (moveOneServo_loop step_lib 0 (Suc (Suc 0)) stop_pending_robot) = Stopped"
  "currentAngle (sServoArray (snd (moveOneServo_loop step_lib 0 (Suc (Suc 0)) stop_pending_robot)) ! 0) = 91"
  "targetAngle (sServoArray (snd (moveOneServo_loop step_lib 0 (Suc (Suc 0)) stop_pending_robot)) ! 0) = 92"
  "events (snd (moveOneServo_loop step_lib 0 (Suc (Suc 0)) stop_pending_robot))
     = [PollInput, StopCheck, Delay 20, UpdateOne 0, PollInput, StopCheck]"
  by (simp_all add: stop_pending_robot_def run_defs)


lemma after_one_round:
  "sRequestToStopReceived (checkIRInput (loop_round_one step_lib 0 stop_pending_robot))"
  "currentAngle (sServoArray (loop_round_one step_lib 0 stop_pending_robot) ! 0) = 91"
  "targetAngle (sServoArray (loop_round_one step_lib 0 stop_pending_robot) ! 0) = 92"
  by (simp_all add: loop_round_one_def stop_pending_robot_def run_defs)

section \<open>The map from height percent to lift angle\<close>

lemma slong_id: "- (2 ^ 31) \<le> k \<Longrightarrow> k < 2 ^ 31 \<Longrightarrow> slong k = k"
  unfolding slong_def by (rule signed_take_bit_int_eq_self)

lemma zdiv_le_dividend_abs: "\<bar>a\<bar> div \<bar>b\<bar> \<le> \<bar>a\<bar>" for a b :: int
proof (cases "b = 0")
  case True
  then show ?thesis by simp
next
  case False
  then have "1 \<le> \<bar>b\<bar>" by simp
  then have "\<bar>a\<bar> div \<bar>b\<bar> \<le> \<bar>a\<bar> div 1"
    by (intro zdiv_mono2) simp_all
  then show ?thesis by simp
qed

lemma c_div_abs_le: "\<bar>c_div a b\<bar> \<le> \<bar>a\<bar>"
proof -
  have q0: "0 \<le> \<bar>a\<bar> div \<bar>b\<bar>"
    by (simp add: div_int_pos_iff)
  have "\<bar>c_div a b\<bar> = \<bar>sgn a\<bar> * \<bar>sgn b\<bar> * (\<bar>a\<bar> div \<bar>b\<bar>)"
    using q0 by (simp add: c_div_def abs_mult)
  also have "\<dots> \<le> \<bar>a\<bar> div \<bar>b\<bar>"
    using q0 by (cases "a = 0"; cases "b = 0") (simp_all add: abs_sgn_eq)
  also have "\<dots> \<le> \<bar>a\<bar>"
    by (rule zdiv_le_dividend_abs)
  finally show ?thesis .
qed

lemma c_div_100: "c_div (100 * d) 100 = d"
  by (cases "d = 0") (simp_all add: c_div_def abs_mult sgn_mult mult_sgn_abs)

lemma sint16_bounds: "- (2 ^ 15) \<le> sint (w :: cint)" "sint (w :: cint) < 2 ^ 15"
  using sint_ge [of w] sint_lt [of w] by simp_all

lemma arduino_map_percent:
  fixes lmax lmin :: cint
  assumes "0 \<le> x" "x \<le> 100"
  shows "arduino_map x 0 100 (sint lmax) (sint lmin) =
           Some (sint lmax + c_div (x * (sint lmin - sint lmax)) 100)"
proof -
  let ?d = "sint lmin - sint lmax"
  note b = sint16_bounds [of lmax] sint16_bounds [of lmin]
  have d: "\<bar>?d\<bar> < 2 ^ 16"
    using b by simp
  have "\<bar>x * ?d\<bar> = x * \<bar>?d\<bar>"
    using assms by (simp add: abs_mult)
  also have "\<dots> \<le> 100 * \<bar>?d\<bar>"
    using assms by (intro mult_right_mono) simp_all
  finally have xd: "\<bar>x * ?d\<bar> < 100 * 2 ^ 16"
    using d by simp
  have q: "\<bar>c_div (x * ?d) 100\<bar> < 100 * 2 ^ 16"
    using c_div_abs_le [of "x * ?d" 100] xd by simp
  have s1: "slong (x - 0) = x"
    using assms slong_id [of x] by simp
  have s2: "slong ?d = ?d"
    using d by (intro slong_id) (simp_all add: abs_less_iff)
  have s3: "slong (x * ?d) = x * ?d"
    using xd by (intro slong_id) (simp_all add: abs_less_iff)
  have s4: "slong (100 - 0) = 100"
    using slong_id [of 100] by simp
  have s5: "slong (c_div (x * ?d) 100) = c_div (x * ?d) 100"
    using q by (intro slong_id) (simp_all add: abs_less_iff)
  have s6: "slong (c_div (x * ?d) 100 + sint lmax) = c_div (x * ?d) 100 + sint lmax"
    using q b by (intro slong_id) (simp_all add: abs_less_iff)
  show ?thesis
    unfolding arduino_map_def s1 s2 s3 s4 s5 s6 by simp
qed


lemma c_div_percent_between:
  assumes "0 \<le> x" "x \<le> 100"
  shows "min 0 d \<le> c_div (x * d) 100 \<and> c_div (x * d) 100 \<le> max 0 d"
proof -
  have q0: "0 \<le> \<bar>x * d\<bar> div 100"
    by (simp add: div_int_pos_iff)
  have "\<bar>x * d\<bar> = x * \<bar>d\<bar>"
    using assms by (simp add: abs_mult)
  also have "\<dots> \<le> 100 * \<bar>d\<bar>"
    using assms by (intro mult_right_mono) simp_all
  finally have "\<bar>x * d\<bar> div 100 \<le> (100 * \<bar>d\<bar>) div 100"
    by (intro zdiv_mono1) simp_all
  then have q1: "\<bar>x * d\<bar> div 100 \<le> \<bar>d\<bar>"
    by simp
  have c: "c_div (x * d) 100 = sgn (x * d) * (\<bar>x * d\<bar> div 100)"
    by (simp add: c_div_def)
  consider "x = 0 \<or> d = 0" | "0 < x" "0 < d" | "0 < x" "d < 0"
    using assms by linarith
  then show ?thesis
  proof cases
    case 1
    then show ?thesis
      unfolding c by auto
  next
    case 2
    then have "sgn (x * d) = 1" by (simp add: sgn_mult)
    then show ?thesis
      unfolding c using q0 q1 2 by simp
  next
    case 3
    then have "sgn (x * d) = - 1" by (simp add: sgn_mult)
    then show ?thesis
      unfolding c using q0 q1 3 by simp
  qed
qed

lemma clamped_percent:
  "uint (if aHeightPercent > 100 then 100 else aHeightPercent) = min (uint aHeightPercent) 100"
  for aHeightPercent :: uint8
  by (simp add: word_less_def min_def)

text \<open>
  With a lift range from 125 down to 40 degrees, 50 percent gives 83 degrees: the
  quotient \<open>-4250 / 100\<close> is truncated to \<open>-42\<close>.
\<close>

lemma setLiftServoHeight_half:
  "setLiftServoHeight step_lib 125 40 \<lparr>trim = 0, currentAngle = 90, targetAngle = 90\<rparr> 50
     = Some \<lparr>trim = 0, currentAngle = 83, targetAngle = 83\<rparr>"
  by code_simp

section \<open>The loop of \<open>printTrimAngles\<close>\<close>

lemma printTrimAngles_from_step:
  assumes "i < NUMBER_OF_SERVOS" "i < length (sServoTrimAngles s)" "i < length (sServoArray s)"
  shows "printTrimAngles_from i s =
           printTrimAngles_from (Suc i)
             (s\<lparr>serialOut := serialOut s @ trim_line s i,
                sServoArray := (sServoArray s)
                  [i := setTrim (sServoTrimAngles s ! i) (sServoArray s ! i)]\<rparr>)"
  using assms
  by (subst printTrimAngles_from.simps) (simp add: serial_print_def Let_def trim_line_def)

lemma printTrimAngles_from_stop:
  "\<not> i < NUMBER_OF_SERVOS \<Longrightarrow> printTrimAngles_from i s = Some s"
  by (subst printTrimAngles_from.simps) simp

lemma printTrimAngles_from_result:
  assumes "NUMBER_OF_SERVOS \<le> length (sServoTrimAngles s)"
      and "NUMBER_OF_SERVOS \<le> length (sServoArray s)"
      and "i \<le> NUMBER_OF_SERVOS"
  shows "\<exists>s'. printTrimAngles_from i s = Some s' \<and>
           s' = s\<lparr>serialOut := serialOut s', sServoArray := sServoArray s'\<rparr> \<and>
           serialOut s' = serialOut s @ concat (map (trim_line s) [i..<NUMBER_OF_SERVOS]) \<and>
           length (sServoArray s') = length (sServoArray s) \<and>
           (\<forall>j < length (sServoArray s).
              sServoArray s' ! j =
                (if i \<le> j \<and> j < NUMBER_OF_SERVOS
                 then setTrim (sServoTrimAngles s ! j) (sServoArray s ! j)
                 else sServoArray s ! j))"
  using assms
proof (induction "NUMBER_OF_SERVOS - i" arbitrary: i s)
  case 0
  then have "i = NUMBER_OF_SERVOS" by simp
  then show ?case
    by (auto simp: printTrimAngles_from_stop)
next
  case (Suc n)
  then have i: "i < NUMBER_OF_SERVOS" by simp
  let ?t = "s\<lparr>serialOut := serialOut s @ trim_line s i,
                sServoArray := (sServoArray s)
                  [i := setTrim (sServoTrimAngles s ! i) (sServoArray s ! i)]\<rparr>"
  have step: "printTrimAngles_from i s = printTrimAngles_from (Suc i) ?t"
    using i Suc.prems by (intro printTrimAngles_from_step) simp_all
  have "n = NUMBER_OF_SERVOS - Suc i"
    using Suc.hyps(2) by simp
  from Suc.hyps(1) [OF this, of ?t] Suc.prems i
  obtain s' where s': "printTrimAngles_from (Suc i) ?t = Some s'"
    "s' = ?t\<lparr>serialOut := serialOut s', sServoArray := sServoArray s'\<rparr>"
    "serialOut s' = serialOut ?t @ concat (map (trim_line ?t) [Suc i..<NUMBER_OF_SERVOS])"
    "length (sServoArray s') = length (sServoArray ?t)"
    "\<forall>j < length (sServoArray ?t).
        sServoArray s' ! j =
          (if Suc i \<le> j \<and> j < NUMBER_OF_SERVOS
           then setTrim (sServoTrimAngles ?t ! j) (sServoArray ?t ! j)
           else sServoArray ?t ! j)"
    by auto
  have lines: "trim_line ?t = trim_line s"
    by (simp add: trim_line_def fun_eq_iff)
  have "s' = s\<lparr>serialOut := serialOut s', sServoArray := sServoArray s'\<rparr>"
    by (subst s'(2)) simp
  moreover have "serialOut s' = serialOut s @ concat (map (trim_line s) [i..<NUMBER_OF_SERVOS])"
    using s'(3) i by (simp add: lines upt_conv_Cons)
  moreover have "length (sServoArray s') = length (sServoArray s)"
    using s'(4) by simp
  moreover have "\<forall>j < length (sServoArray s).
        sServoArray s' ! j =
          (if i \<le> j \<and> j < NUMBER_OF_SERVOS
           then setTrim (sServoTrimAngles s ! j) (sServoArray s ! j)
           else sServoArray s ! j)"
  proof (intro allI impI)
    fix j
    assume j: "j < length (sServoArray s)"
    with s'(5) have v: "sServoArray s' ! j =
          (if Suc i \<le> j \<and> j < NUMBER_OF_SERVOS
           then setTrim (sServoTrimAngles s ! j)
                  ((sServoArray s)[i := setTrim (sServoTrimAngles s ! i) (sServoArray s ! i)] ! j)
           else (sServoArray s)[i := setTrim (sServoTrimAngles s ! i) (sServoArray s ! i)] ! j)"
      by simp
    consider "j = i" | "j < i" | "Suc i \<le> j"
      by linarith
    then show "sServoArray s' ! j =
          (if i \<le> j \<and> j < NUMBER_OF_SERVOS
           then setTrim (sServoTrimAngles s ! j) (sServoArray s ! j)
           else sServoArray s ! j)"
    proof cases
      case 1
      then show ?thesis using v i j by simp
    next
      case 2
      then show ?thesis using v j by simp
    next
      case 3
      then show ?thesis using v j by simp
    qed
  qed
  ultimately show ?case
    unfolding step using s'(1) by blast
qed

lemma trimmed_robot_wf:
  "NUMBER_OF_SERVOS \<le> length (sServoTrimAngles trimmed_robot)"
  "NUMBER_OF_SERVOS \<le> length (sServoArray trimmed_robot)"
  "length (sServoArray trimmed_robot) = 8"
  "sServoTrimAngles trimmed_robot = [5, - 3, 0, 0, 0, 0, 0, 0]"
  "j < 8 \<Longrightarrow>
     sServoArray trimmed_robot ! j = \<lparr>trim = 0, currentAngle = 90, targetAngle = 90\<rparr>"
  by (simp_all add: trimmed_robot_def startup_robot_def NUMBER_OF_SERVOS_def)

section \<open>Claims\<close>

text \<open>
  C1. For each canonical pivot index \<open>c\<close> (0, 2, 4, 6), each of the four enumerated
  directions \<open>d\<close> and each mirror flag \<open>m\<close>, after \<open>transformAndSetAllServos\<close> the slot
  \<open>((c + d * 2) mod 8) XOR mask\<close> of the staging buffer holds the pivot angle of that role,
  where \<open>mask\<close> is 0 without mirroring, 2 when mirroring a side direction and 6 when
  mirroring forward or backward; the angle stored is 180 minus the argument when
  mirroring and the argument itself otherwise. The buffer must have its eight slots.
\<close>

theorem C1_pivot_angle_at_physical_index:
  assumes "d \<in> {MOVE_DIRECTION_FORWARD, MOVE_DIRECTION_LEFT, MOVE_DIRECTION_BACKWARD,
                 MOVE_DIRECTION_RIGHT}"
      and "NUMBER_OF_SERVOS \<le> length (sServoNextPositionArray s)"
  shows "let mask = (if \<not> m then 0x0
                     else if d \<in> {MOVE_DIRECTION_LEFT, MOVE_DIRECTION_RIGHT} then 0x2 else 0x6);
             physical = (\<lambda>c. ((c + unat d * 2) mod 8) XOR mask);
             stored = (\<lambda>a. if m then 180 - a else a)
         in \<exists>r s'.
              transformAndSetAllServos lib fuel aFLP aBLP aBRP aFRP aFLL aBLL aBRL aFRL
                d m aDoMove s = Some (r, s') \<and>
              sServoNextPositionArray s' ! physical FRONT_LEFT_PIVOT = stored aFLP \<and>
              sServoNextPositionArray s' ! physical BACK_LEFT_PIVOT = stored aBLP \<and>
              sServoNextPositionArray s' ! physical BACK_RIGHT_PIVOT = stored aBRP \<and>
              sServoNextPositionArray s' ! physical FRONT_RIGHT_PIVOT = stored aFRP"
proof -
  have len: "8 \<le> length (sServoNextPositionArray s)"
    using assms(2) by (simp add: NUMBER_OF_SERVOS_def)
  then have ne: "sServoNextPositionArray s \<noteq> []"
    by auto
  obtain r s' where
    run: "transformAndSetAllServos lib fuel aFLP aBLP aBRP aFRP aFLL aBLL aBRL aFRL
            d m aDoMove s = Some (r, s')"
    and buf: "sServoNextPositionArray s' = (sServoNextPositionArray s)
       [unat (transformOneServoIndex 0 d m) := (if m then 180 - aFLP else aFLP),
        Suc (unat (transformOneServoIndex 0 d m)) := aFLL,
        unat (transformOneServoIndex 2 d m) := (if m then 180 - aBLP else aBLP),
        Suc (unat (transformOneServoIndex 2 d m)) := aBLL,
        unat (transformOneServoIndex 4 d m) := (if m then 180 - aBRP else aBRP),
        Suc (unat (transformOneServoIndex 4 d m)) := aBRL,
        unat (transformOneServoIndex 6 d m) := (if m then 180 - aFRP else aFRP),
        Suc (unat (transformOneServoIndex 6 d m)) := aFRL]"
    using transformAndSetAllServos_buffer [OF assms(2)] by blast
  from assms(1) consider "d = 0" | "d = 1" | "d = 2" | "d = 3"
    by (auto simp: direction_defs)
  then have
    "sServoNextPositionArray s' ! (((FRONT_LEFT_PIVOT + unat d * 2) mod 8) XOR
         (if \<not> m then 0x0
          else if d \<in> {MOVE_DIRECTION_LEFT, MOVE_DIRECTION_RIGHT} then 0x2 else 0x6))
       = (if m then 180 - aFLP else aFLP) \<and>
     sServoNextPositionArray s' ! (((BACK_LEFT_PIVOT + unat d * 2) mod 8) XOR
         (if \<not> m then 0x0
          else if d \<in> {MOVE_DIRECTION_LEFT, MOVE_DIRECTION_RIGHT} then 0x2 else 0x6))
       = (if m then 180 - aBLP else aBLP) \<and>
     sServoNextPositionArray s' ! (((BACK_RIGHT_PIVOT + unat d * 2) mod 8) XOR
         (if \<not> m then 0x0
          else if d \<in> {MOVE_DIRECTION_LEFT, MOVE_DIRECTION_RIGHT} then 0x2 else 0x6))
       = (if m then 180 - aBRP else aBRP) \<and>
     sServoNextPositionArray s' ! (((FRONT_RIGHT_PIVOT + unat d * 2) mod 8) XOR
         (if \<not> m then 0x0
          else if d \<in> {MOVE_DIRECTION_LEFT, MOVE_DIRECTION_RIGHT} then 0x2 else 0x6))
       = (if m then 180 - aFRP else aFRP)"
  proof cases
    case 1
    show ?thesis
      unfolding buf 1 using len ne
      by (cases m)
         (simp_all add: transformOneServoIndex_def getMirrorXorMask_def config_defs
            direction_defs MOVE_DIRECTION_SIDE_MASK_def del: add_2_eq_Suc add_2_eq_Suc')
  next
    case 2
    show ?thesis
      unfolding buf 2 using len ne
      by (cases m)
         (simp_all add: transformOneServoIndex_def getMirrorXorMask_def config_defs
            direction_defs MOVE_DIRECTION_SIDE_MASK_def del: add_2_eq_Suc add_2_eq_Suc')
  next
    case 3
    show ?thesis
      unfolding buf 3 using len ne
      by (cases m)
         (simp_all add: transformOneServoIndex_def getMirrorXorMask_def config_defs
            direction_defs MOVE_DIRECTION_SIDE_MASK_def del: add_2_eq_Suc add_2_eq_Suc')
  next
    case 4
    show ?thesis
      unfolding buf 4 using len ne
      by (cases m)
         (simp_all add: transformOneServoIndex_def getMirrorXorMask_def config_defs
            direction_defs MOVE_DIRECTION_SIDE_MASK_def del: add_2_eq_Suc add_2_eq_Suc')
  qed
  with run show ?thesis
    unfolding Let_def by blast
qed

theorem C1_pivot_angle_at_physical_index_witness:
  "MOVE_DIRECTION_FORWARD \<in> {MOVE_DIRECTION_FORWARD, MOVE_DIRECTION_LEFT,
       MOVE_DIRECTION_BACKWARD, MOVE_DIRECTION_RIGHT} \<and>
   NUMBER_OF_SERVOS \<le> length (sServoNextPositionArray startup_robot) \<and>
   (\<exists>r s'. transformAndSetAllServos step_lib 0 180 1 135 30 111 0 0 0
              MOVE_DIRECTION_FORWARD True False startup_robot = Some (r, s') \<and>
            sServoNextPositionArray s' ! 6 = 0 \<and>
            sServoNextPositionArray s' ! 4 = 179 \<and>
            sServoNextPositionArray s' ! 2 = 45 \<and>
            sServoNextPositionArray s' ! 0 = 150)"
  using C1_pivot_angle_at_physical_index
    [of MOVE_DIRECTION_FORWARD startup_robot True step_lib 0 180 1 135 30 111 0 0 0 False]
  by (simp add: Let_def startup_robot_def config_defs direction_defs)

text \<open>
  C2. For every direction and every mirror flag, \<open>transformOneServoIndex\<close> sends the four
  canonical pivot indices 0, 2, 4, 6 to four pairwise distinct physical indices. It is
  proved for every direction byte, so in particular for the four enumerated directions.
\<close>

theorem C2_pivot_indices_distinct:
  "distinct [transformOneServoIndex 0 d m, transformOneServoIndex 2 d m,
             transformOneServoIndex 4 d m, transformOneServoIndex 6 d m]"
proof (cases rule: mod_4_cases [of "unat d"])
  case 1
  show ?thesis
    unfolding transformOneServoIndex_mod4 1(1) using 1(2) by (cases m) (simp_all del: add_2_eq_Suc add_2_eq_Suc')
next
  case 2
  show ?thesis
    unfolding transformOneServoIndex_mod4 2(1) using 2(2) by (cases m) (simp_all del: add_2_eq_Suc add_2_eq_Suc')
next
  case 3
  show ?thesis
    unfolding transformOneServoIndex_mod4 3(1) using 3(2) by (cases m) (simp_all del: add_2_eq_Suc add_2_eq_Suc')
next
  case 4
  show ?thesis
    unfolding transformOneServoIndex_mod4 4(1) using 4(2) by (cases m) (simp_all del: add_2_eq_Suc add_2_eq_Suc')
qed

text \<open>
  C3. For all pivot angles, every direction byte and every mirror flag,
  \<open>transformAndSetPivotServos\<close> called without a move leaves in the four pivot slots of
  the staging buffer exactly the values that \<open>transformAndSetAllServos\<close> leaves there for
  the same pivot angles, direction and mirror flag (whatever its lift angles and whether
  or not it moves), and changes nothing else: every other slot, the lift slots among
  them, keeps its value, and so does the rest of the program state.
\<close>

theorem C3_pivot_path_agrees:
  assumes "NUMBER_OF_SERVOS \<le> length (sServoNextPositionArray s)"
  shows "\<exists>s1 r2 s2.
           transformAndSetPivotServos lib fuel aFLP aBLP aBRP aFRP d m False s
             = Some (Returned, s1) \<and>
           transformAndSetAllServos lib fuel2 aFLP aBLP aBRP aFRP aFLL aBLL aBRL aFRL
             d m aDoMove s = Some (r2, s2) \<and>
           (\<forall>i \<in> {FRONT_LEFT_PIVOT, BACK_LEFT_PIVOT, BACK_RIGHT_PIVOT, FRONT_RIGHT_PIVOT}.
              sServoNextPositionArray s1 ! i = sServoNextPositionArray s2 ! i) \<and>
           (\<forall>i. i \<notin> {FRONT_LEFT_PIVOT, BACK_LEFT_PIVOT, BACK_RIGHT_PIVOT, FRONT_RIGHT_PIVOT}
              \<longrightarrow> sServoNextPositionArray s1 ! i = sServoNextPositionArray s ! i) \<and>
           length (sServoNextPositionArray s1) = length (sServoNextPositionArray s) \<and>
           s1 = s\<lparr>sServoNextPositionArray := sServoNextPositionArray s1\<rparr>"
proof -
  have len: "8 \<le> length (sServoNextPositionArray s)"
    using assms by (simp add: NUMBER_OF_SERVOS_def)
  obtain r2 s2 where
    run: "transformAndSetAllServos lib fuel2 aFLP aBLP aBRP aFRP aFLL aBLL aBRL aFRL
            d m aDoMove s = Some (r2, s2)"
    and buf: "sServoNextPositionArray s2 = (sServoNextPositionArray s)
       [unat (transformOneServoIndex 0 d m) := (if m then 180 - aFLP else aFLP),
        Suc (unat (transformOneServoIndex 0 d m)) := aFLL,
        unat (transformOneServoIndex 2 d m) := (if m then 180 - aBLP else aBLP),
        Suc (unat (transformOneServoIndex 2 d m)) := aBLL,
        unat (transformOneServoIndex 4 d m) := (if m then 180 - aBRP else aBRP),
        Suc (unat (transformOneServoIndex 4 d m)) := aBRL,
        unat (transformOneServoIndex 6 d m) := (if m then 180 - aFRP else aFRP),
        Suc (unat (transformOneServoIndex 6 d m)) := aFRL]"
    using transformAndSetAllServos_buffer [OF assms] by blast
  let ?ps = "(sServoNextPositionArray s)
       [unat (transformOneServoIndex 0 d m) := (if m then 180 - aFLP else aFLP),
        unat (transformOneServoIndex 2 d m) := (if m then 180 - aBLP else aBLP),
        unat (transformOneServoIndex 4 d m) := (if m then 180 - aBRP else aBRP),
        unat (transformOneServoIndex 6 d m) := (if m then 180 - aFRP else aFRP)]"
  let ?s1 = "s\<lparr>sServoNextPositionArray := ?ps\<rparr>"
  have piv: "transformAndSetPivotServos lib fuel aFLP aBLP aBRP aFRP d m False s
      = Some (Returned, ?s1)"
    by (rule transformAndSetPivotServos_staged [OF assms])
  have same: "?ps ! 0 = sServoNextPositionArray s2 ! 0 \<and> ?ps ! 2 = sServoNextPositionArray s2 ! 2
      \<and> ?ps ! 4 = sServoNextPositionArray s2 ! 4 \<and> ?ps ! 6 = sServoNextPositionArray s2 ! 6"
    unfolding buf by (rule pivot_slots_agree(1) [OF len])
  have other: "?ps ! i = sServoNextPositionArray s ! i" if "i \<notin> {0, 2, 4, 6}" for i
    using that by (rule pivot_slots_agree(2) [OF len])
  have "(\<forall>i \<in> {FRONT_LEFT_PIVOT, BACK_LEFT_PIVOT, BACK_RIGHT_PIVOT, FRONT_RIGHT_PIVOT}.
              sServoNextPositionArray ?s1 ! i = sServoNextPositionArray s2 ! i)"
    using same by (simp add: config_defs)
  moreover have "(\<forall>i. i \<notin> {FRONT_LEFT_PIVOT, BACK_LEFT_PIVOT, BACK_RIGHT_PIVOT, FRONT_RIGHT_PIVOT}
              \<longrightarrow> sServoNextPositionArray ?s1 ! i = sServoNextPositionArray s ! i)"
    using other by (simp add: config_defs)
  moreover have "length (sServoNextPositionArray ?s1) = length (sServoNextPositionArray s)"
    by simp
  moreover have "?s1 = s\<lparr>sServoNextPositionArray := sServoNextPositionArray ?s1\<rparr>"
    by simp
  ultimately show ?thesis
    using piv run by blast
qed

theorem C3_pivot_path_agrees_witness:
  "NUMBER_OF_SERVOS \<le> length (sServoNextPositionArray startup_robot) \<and>
   (\<exists>s1 r2 s2.
       transformAndSetPivotServos step_lib 0 180 1 135 30 MOVE_DIRECTION_LEFT True False
         startup_robot = Some (Returned, s1) \<and>
       transformAndSetAllServos step_lib 0 180 1 135 30 111 0 0 0 MOVE_DIRECTION_LEFT True False
         startup_robot = Some (r2, s2) \<and>
       sServoNextPositionArray s1 ! 0 = sServoNextPositionArray s2 ! 0 \<and>
       sServoNextPositionArray s1 ! 2 = sServoNextPositionArray s2 ! 2 \<and>
       sServoNextPositionArray s1 ! 4 = sServoNextPositionArray s2 ! 4 \<and>
       sServoNextPositionArray s1 ! 6 = sServoNextPositionArray s2 ! 6 \<and>
       sServoNextPositionArray s1 ! 1 = sServoNextPositionArray startup_robot ! 1 \<and>
       length (sServoNextPositionArray s1) = 8)"
proof -
  have len: "NUMBER_OF_SERVOS \<le> length (sServoNextPositionArray startup_robot)"
    by (simp add: startup_robot_def NUMBER_OF_SERVOS_def)
  have l8: "length (sServoNextPositionArray startup_robot) = 8"
    by (simp add: startup_robot_def)
  from C3_pivot_path_agrees [OF len, of step_lib 0 180 1 135 30 MOVE_DIRECTION_LEFT True
      0 111 0 0 0 False]
  show ?thesis
    unfolding l8 config_defs using len by fastforce
qed

text \<open>
  C4. When the stop request is seen at a poll, either loop returns at once, in whatever
  state the turn began: the state returned is the state after that poll and stop check,
  with no wait and no update after it, the registry of servos and the staging buffer as
  they were when the turn began. Conversely, every run that is left through the stop
  request has made \<open>k\<close> full turns, saw the request at the next poll, and returns the
  servos exactly as the \<open>k\<close>-th update left them, the staging buffer as it was at the
  start: no rollback and no snap to the target.
\<close>

theorem C4_stop_request_ends_loop:
  "(sRequestToStopReceived (checkIRInput s) \<longrightarrow>
      updateAndCheckInputAndWaitForAllServosToStop lib (Suc fuel) s =
        (Stopped, (checkIRInput s)\<lparr>events := events s @ [PollInput, StopCheck]\<rparr>) \<and>
      moveOneServo_loop lib i (Suc fuel) s =
        (Stopped, (checkIRInput s)\<lparr>events := events s @ [PollInput, StopCheck]\<rparr>) \<and>
      sServoArray (checkIRInput s) = sServoArray s \<and>
      sServoNextPositionArray (checkIRInput s) = sServoNextPositionArray s) \<and>
   (updateAndCheckInputAndWaitForAllServosToStop lib fuel s = (Stopped, s') \<longrightarrow>
      (\<exists>k < fuel.
         sRequestToStopReceived (checkIRInput ((loop_round_all lib ^^ k) s)) \<and>
         sServoArray s' = sServoArray ((loop_round_all lib ^^ k) s) \<and>
         sServoNextPositionArray s' = sServoNextPositionArray s \<and>
         events s' = events ((loop_round_all lib ^^ k) s) @ [PollInput, StopCheck])) \<and>
   (moveOneServo_loop lib i fuel s = (Stopped, s') \<longrightarrow>
      (\<exists>k < fuel.
         sRequestToStopReceived (checkIRInput ((loop_round_one lib i ^^ k) s)) \<and>
         sServoArray s' = sServoArray ((loop_round_one lib i ^^ k) s) \<and>
         sServoNextPositionArray s' = sServoNextPositionArray s \<and>
         events s' = events ((loop_round_one lib i ^^ k) s) @ [PollInput, StopCheck]))"
proof (intro conjI impI)
  assume stop: "sRequestToStopReceived (checkIRInput s)"
  then show "updateAndCheckInputAndWaitForAllServosToStop lib (Suc fuel) s =
        (Stopped, (checkIRInput s)\<lparr>events := events s @ [PollInput, StopCheck]\<rparr>)"
    by (simp add: loop_all_Suc del: updateAndCheckInputAndWaitForAllServosToStop.simps)
  from stop show "moveOneServo_loop lib i (Suc fuel) s =
        (Stopped, (checkIRInput s)\<lparr>events := events s @ [PollInput, StopCheck]\<rparr>)"
    by (simp add: loop_one_Suc del: moveOneServo_loop.simps)
  show "sServoArray (checkIRInput s) = sServoArray s"
    by simp
  show "sServoNextPositionArray (checkIRInput s) = sServoNextPositionArray s"
    by simp
next
  assume "updateAndCheckInputAndWaitForAllServosToStop lib fuel s = (Stopped, s')"
  from loop_all_Stopped [OF this] obtain k where k: "k < fuel"
    "sRequestToStopReceived (checkIRInput ((loop_round_all lib ^^ k) s))"
    "s' = (checkIRInput ((loop_round_all lib ^^ k) s))
            \<lparr>events := events ((loop_round_all lib ^^ k) s) @ [PollInput, StopCheck]\<rparr>"
    by blast
  show "\<exists>k < fuel.
         sRequestToStopReceived (checkIRInput ((loop_round_all lib ^^ k) s)) \<and>
         sServoArray s' = sServoArray ((loop_round_all lib ^^ k) s) \<and>
         sServoNextPositionArray s' = sServoNextPositionArray s \<and>
         events s' = events ((loop_round_all lib ^^ k) s) @ [PollInput, StopCheck]"
    using k(1,2) by (intro exI [of _ k]) (simp add: k(3))
next
  assume "moveOneServo_loop lib i fuel s = (Stopped, s')"
  from loop_one_Stopped [OF this] obtain k where k: "k < fuel"
    "sRequestToStopReceived (checkIRInput ((loop_round_one lib i ^^ k) s))"
    "s' = (checkIRInput ((loop_round_one lib i ^^ k) s))
            \<lparr>events := events ((loop_round_one lib i ^^ k) s) @ [PollInput, StopCheck]\<rparr>"
    by blast
  show "\<exists>k < fuel.
         sRequestToStopReceived (checkIRInput ((loop_round_one lib i ^^ k) s)) \<and>
         sServoArray s' = sServoArray ((loop_round_one lib i ^^ k) s) \<and>
         sServoNextPositionArray s' = sServoNextPositionArray s \<and>
         events s' = events ((loop_round_one lib i ^^ k) s) @ [PollInput, StopCheck]"
    using k(1,2) by (intro exI [of _ k]) (simp add: k(3))
qed

theorem C4_stop_request_ends_loop_witness:
  "sRequestToStopReceived (checkIRInput (loop_round_one step_lib 0 stop_pending_robot)) \<and>
   updateAndCheckInputAndWaitForAllServosToStop step_lib (Suc 0)
       (loop_round_one step_lib 0 stop_pending_robot) =
     (Stopped, (checkIRInput (loop_round_one step_lib 0 stop_pending_robot))
        \<lparr>events := events (loop_round_one step_lib 0 stop_pending_robot)
                     @ [PollInput, StopCheck]\<rparr>) \<and>
   moveOneServo_loop step_lib 0 (Suc 0) (loop_round_one step_lib 0 stop_pending_robot) =
     (Stopped, (checkIRInput (loop_round_one step_lib 0 stop_pending_robot))
        \<lparr>events := events (loop_round_one step_lib 0 stop_pending_robot)
                     @ [PollInput, StopCheck]\<rparr>) \<and>
   sServoArray (checkIRInput (loop_round_one step_lib 0 stop_pending_robot))
     = sServoArray (loop_round_one step_lib 0 stop_pending_robot) \<and>
   currentAngle (sServoArray (checkIRInput (loop_round_one step_lib 0 stop_pending_robot)) ! 0)
     = 91 \<and>
   targetAngle (sServoArray (checkIRInput (loop_round_one step_lib 0 stop_pending_robot)) ! 0)
     = 92 \<and>
   (\<exists>k < Suc 0.
      sServoArray (checkIRInput (loop_round_one step_lib 0 stop_pending_robot)) =
        sServoArray ((loop_round_all step_lib ^^ k)
                       (loop_round_one step_lib 0 stop_pending_robot))) \<and>
   (\<exists>k < Suc 0.
      sServoArray (checkIRInput (loop_round_one step_lib 0 stop_pending_robot)) =
        sServoArray ((loop_round_one step_lib 0 ^^ k)
                       (loop_round_one step_lib 0 stop_pending_robot)))"
proof -
  let ?s = "loop_round_one step_lib 0 stop_pending_robot"
  let ?x = "(checkIRInput ?s)\<lparr>events := events ?s @ [PollInput, StopCheck]\<rparr>"
  note stop = after_one_round(1)
  from C4_stop_request_ends_loop [of ?s step_lib 0 0 ?x] stop
  have first: "updateAndCheckInputAndWaitForAllServosToStop step_lib (Suc 0) ?s = (Stopped, ?x)"
    "moveOneServo_loop step_lib 0 (Suc 0) ?s = (Stopped, ?x)"
    "sServoArray (checkIRInput ?s) = sServoArray ?s"
    by blast+
  from C4_stop_request_ends_loop [of ?s step_lib "Suc 0" 0 ?x] first(1,2)
  have "\<exists>k < Suc 0. sServoArray ?x = sServoArray ((loop_round_all step_lib ^^ k) ?s)"
    and "\<exists>k < Suc 0. sServoArray ?x = sServoArray ((loop_round_one step_lib 0 ^^ k) ?s)"
    by blast+
  then have last: "\<exists>k < Suc 0. sServoArray (checkIRInput ?s)
        = sServoArray ((loop_round_all step_lib ^^ k) ?s)"
    "\<exists>k < Suc 0. sServoArray (checkIRInput ?s)
        = sServoArray ((loop_round_one step_lib 0 ^^ k) ?s)"
    by simp_all
  have angles: "currentAngle (sServoArray (checkIRInput ?s) ! 0) = 91"
    "targetAngle (sServoArray (checkIRInput ?s) ! 0) = 92"
    using after_one_round(2,3) by simp_all
  show ?thesis
    using stop first last angles by blast
qed

text \<open>
  C5. The staging buffer is last-write-wins, with no accumulation. Take any sequence
  \<open>cs\<close> of calls of \<open>transformAndSetAllServos\<close> and \<open>transformAndSetPivotServos\<close> that
  stage without moving, for any directions and mirror flags. They all succeed, and
  afterwards every slot \<open>i\<close> of 0 to 7 holds the value of the most recent assignment to
  \<open>i\<close> among all their assignments (the first entry for \<open>i\<close> in the reversed sequence), or
  its old value if none of them wrote \<open>i\<close>. A commit at that point,
  \<open>synchronizeMoveAllServosAndCheckInputAndWait\<close>, hands exactly that buffer to the
  library before the motion loop runs. A following \<open>setAllServos\<close> succeeds as well: the
  buffer \<open>b\<close> that its commit hands to the library holds at \<open>i\<close> the most recent assignment
  of the whole sequence, which is the argument of \<open>setAllServos\<close> for slot \<open>i\<close>, whatever
  was pending there; the loop runs on the state with that buffer and the servos the
  library returned, and the buffer is still \<open>b\<close> when the call returns.
\<close>

theorem C5_last_write_wins:
  assumes "NUMBER_OF_SERVOS \<le> length (sServoNextPositionArray s)"
      and "i < NUMBER_OF_SERVOS"
  shows "\<exists>s1 b r s2.
           stage_calls lib cs s = Some s1 \<and>
           sServoNextPositionArray s1 ! i =
             (case map_of (rev (concat (map writes_of cs))) i of
                None \<Rightarrow> sServoNextPositionArray s ! i | Some v \<Rightarrow> v) \<and>
           synchronizeMoveAllServosAndCheckInputAndWait lib fuel s1 =
             updateAndCheckInputAndWaitForAllServosToStop lib fuel
               (s1\<lparr>sServoArray := lib_synchronizeAllServosAndStartInterrupt lib False
                      (lib_setEaseToForAllServos lib (sServoNextPositionArray s1)
                         (sServoArray s))\<rparr>) \<and>
           setAllServos lib fuel aFLP aBLP aBRP aFRP aFLL aBLL aBRL aFRL s1 = Some (r, s2) \<and>
           (r, s2) =
             updateAndCheckInputAndWaitForAllServosToStop lib fuel
               (s1\<lparr>sServoNextPositionArray := b,
                   sServoArray := lib_synchronizeAllServosAndStartInterrupt lib False
                      (lib_setEaseToForAllServos lib b (sServoArray s))\<rparr>) \<and>
           b ! i =
             (case map_of (rev (concat (map writes_of cs)
                                @ writes_of_setAllServos aFLP aBLP aBRP aFRP aFLL aBLL aBRL aFRL)) i of
                None \<Rightarrow> sServoNextPositionArray s ! i | Some v \<Rightarrow> v) \<and>
           map_of (writes_of_setAllServos aFLP aBLP aBRP aFRP aFLL aBLL aBRL aFRL) i
             = Some (b ! i) \<and>
           sServoNextPositionArray s2 = b"
proof -
  let ?ws = "concat (map writes_of cs)"
  let ?W = "writes_of_setAllServos aFLP aBLP aBRP aFRP aFLL aBLL aBRL aFRL"
  have len: "8 \<le> length (sServoNextPositionArray s)"
    using assms(1) by (simp add: NUMBER_OF_SERVOS_def)
  have i: "i < length (sServoNextPositionArray s)"
    using assms by simp
  have r1: "\<forall>(j, v) \<in> set ?ws. j < length (sServoNextPositionArray s)"
    using writes_of_in_range len by fastforce
  have rW: "\<forall>(j, v) \<in> set ?W. j < length (sServoNextPositionArray s)"
    using len by (auto simp: writes_of_setAllServos_def config_defs)
  from setNextPositions_buffer [OF r1] obtain s1 where s1:
    "setNextPositions ?ws s = Some s1"
    "length (sServoNextPositionArray s1) = length (sServoNextPositionArray s)"
    "s1 = s\<lparr>sServoNextPositionArray := sServoNextPositionArray s1\<rparr>"
    "\<forall>i < length (sServoNextPositionArray s).
        sServoNextPositionArray s1 ! i =
          (case map_of (rev ?ws) i of None \<Rightarrow> sServoNextPositionArray s ! i | Some v \<Rightarrow> v)"
    by blast
  have staged: "stage_calls lib cs s = Some s1"
    using stage_calls_writes [OF assms(1)] s1(1) by simp
  have reg1: "sServoArray s1 = sServoArray s"
    by (subst s1(3)) simp
  from rW s1(2) have "\<forall>(j, v) \<in> set ?W. j < length (sServoNextPositionArray s1)"
    by simp
  from setNextPositions_buffer [OF this] obtain t where t:
    "setNextPositions ?W s1 = Some t"
    "t = s1\<lparr>sServoNextPositionArray := sServoNextPositionArray t\<rparr>"
    "\<forall>i < length (sServoNextPositionArray s1).
        sServoNextPositionArray t ! i =
          (case map_of (rev ?W) i of None \<Rightarrow> sServoNextPositionArray s1 ! i | Some v \<Rightarrow> v)"
    by blast
  let ?b = "sServoNextPositionArray t"
  have regt: "sServoArray t = sServoArray s"
    by (subst t(2)) (simp add: reg1)
  from r1 rW have "\<forall>(j, v) \<in> set (?ws @ ?W). j < length (sServoNextPositionArray s)"
    by auto
  from setNextPositions_buffer [OF this] obtain t' where t':
    "setNextPositions (?ws @ ?W) s = Some t'"
    "\<forall>i < length (sServoNextPositionArray s).
        sServoNextPositionArray t' ! i =
          (case map_of (rev (?ws @ ?W)) i of None \<Rightarrow> sServoNextPositionArray s ! i
           | Some v \<Rightarrow> v)"
    by blast
  have "t' = t"
    using t'(1) s1(1) t(1) by (simp add: setNextPositions_app)
  with t'(2) i have both: "?b ! i =
      (case map_of (rev (?ws @ ?W)) i of None \<Rightarrow> sServoNextPositionArray s ! i | Some v \<Rightarrow> v)"
    by simp
  obtain r s2 where run: "synchronizeMoveAllServosAndCheckInputAndWait lib fuel t = (r, s2)"
    by (cases "synchronizeMoveAllServosAndCheckInputAndWait lib fuel t")
  have buf2: "sServoNextPositionArray s2 = ?b"
    using synchronizeMove_staging [of lib fuel t] run by simp
  have call: "setAllServos lib fuel aFLP aBLP aBRP aFRP aFLL aBLL aBRL aFRL s1 = Some (r, s2)"
    using t(1) run by (simp add: setAllServos_writes writes_of_setAllServos_def)
  have own: "map_of ?W i = Some (?b ! i)"
  proof -
    from t(3) i s1(2) have "?b ! i =
        (case map_of (rev ?W) i of None \<Rightarrow> sServoNextPositionArray s1 ! i | Some v \<Rightarrow> v)"
      by simp
    then show ?thesis
      using writes_of_setAllServos_lookup [OF assms(2), of aFLP aBLP aBRP aFRP aFLL aBLL aBRL aFRL]
      by (auto split: option.splits)
  qed
  have commit1: "synchronizeMoveAllServosAndCheckInputAndWait lib fuel s1 =
             updateAndCheckInputAndWaitForAllServosToStop lib fuel
               (s1\<lparr>sServoArray := lib_synchronizeAllServosAndStartInterrupt lib False
                      (lib_setEaseToForAllServos lib (sServoNextPositionArray s1)
                         (sServoArray s))\<rparr>)"
    by (simp add: synchronizeMove_unfold reg1)
  have "t\<lparr>sServoArray := lib_synchronizeAllServosAndStartInterrupt lib False
              (lib_setEaseToForAllServos lib ?b (sServoArray t))\<rparr>
        = s1\<lparr>sServoNextPositionArray := ?b,
              sServoArray := lib_synchronizeAllServosAndStartInterrupt lib False
                (lib_setEaseToForAllServos lib ?b (sServoArray s))\<rparr>"
    by (subst t(2)) (simp add: regt)
  then have commit2: "(r, s2) =
             updateAndCheckInputAndWaitForAllServosToStop lib fuel
               (s1\<lparr>sServoNextPositionArray := ?b,
                   sServoArray := lib_synchronizeAllServosAndStartInterrupt lib False
                      (lib_setEaseToForAllServos lib ?b (sServoArray s))\<rparr>)"
    using run by (simp add: synchronizeMove_unfold)
  from s1(4) i have v1: "sServoNextPositionArray s1 ! i =
             (case map_of (rev ?ws) i of
                None \<Rightarrow> sServoNextPositionArray s ! i | Some v \<Rightarrow> v)"
    by simp
  from staged v1 commit1 call commit2 both own buf2 show ?thesis
    by blast
qed

theorem C5_last_write_wins_witness:
  "NUMBER_OF_SERVOS \<le> length (sServoNextPositionArray startup_robot) \<and>
   (0 :: nat) < NUMBER_OF_SERVOS \<and>
   (\<exists>s1 b r s2.
      stage_calls step_lib
        [TransformAll 180 1 135 30 111 0 0 0 MOVE_DIRECTION_FORWARD False,
         TransformPivots 10 20 30 40 MOVE_DIRECTION_BACKWARD False] startup_robot = Some s1 \<and>
      sServoNextPositionArray s1 ! 0 = 30 \<and>
      setAllServos step_lib (Suc 0) 91 90 90 90 90 90 90 90 s1 = Some (r, s2) \<and>
      (r, s2) =
        updateAndCheckInputAndWaitForAllServosToStop step_lib (Suc 0)
          (s1\<lparr>sServoNextPositionArray := b,
              sServoArray := lib_synchronizeAllServosAndStartInterrupt step_lib False
                 (lib_setEaseToForAllServos step_lib b (sServoArray startup_robot))\<rparr>) \<and>
      b ! 0 = 91 \<and>
      sServoNextPositionArray s2 = b)"
proof -
  let ?cs = "[TransformAll 180 1 135 30 111 0 0 0 MOVE_DIRECTION_FORWARD False,
              TransformPivots 10 20 30 40 MOVE_DIRECTION_BACKWARD False]"
  have h1: "NUMBER_OF_SERVOS \<le> length (sServoNextPositionArray startup_robot)"
    by (simp add: startup_robot_def NUMBER_OF_SERVOS_def)
  have h2: "(0 :: nat) < NUMBER_OF_SERVOS"
    by (simp add: NUMBER_OF_SERVOS_def)
  have m1: "map_of (rev (concat (map writes_of ?cs))) 0 = Some 30"
    by code_simp
  have m2: "map_of (rev (concat (map writes_of ?cs)
                         @ writes_of_setAllServos 91 90 90 90 90 90 90 90)) 0 = Some 91"
    by code_simp
  from C5_last_write_wins [OF h1 h2, of step_lib ?cs "Suc 0" 91 90 90 90 90 90 90 90]
  obtain s1 b r s2 where
    staged: "stage_calls step_lib ?cs startup_robot = Some s1"
    and pending: "sServoNextPositionArray s1 ! 0 =
      (case Some 30 of None \<Rightarrow> sServoNextPositionArray startup_robot ! 0 | Some v \<Rightarrow> v)"
    and call: "setAllServos step_lib (Suc 0) 91 90 90 90 90 90 90 90 s1 = Some (r, s2)"
    and commit: "(r, s2) =
        updateAndCheckInputAndWaitForAllServosToStop step_lib (Suc 0)
          (s1\<lparr>sServoNextPositionArray := b,
              sServoArray := lib_synchronizeAllServosAndStartInterrupt step_lib False
                 (lib_setEaseToForAllServos step_lib b (sServoArray startup_robot))\<rparr>)"
    and effective: "b ! 0 =
      (case Some 91 of None \<Rightarrow> sServoNextPositionArray startup_robot ! 0 | Some v \<Rightarrow> v)"
    and buffer: "sServoNextPositionArray s2 = b"
    unfolding m1 m2 by (elim exE conjE) (rule that; assumption)
  from pending have p: "sServoNextPositionArray s1 ! 0 = 30"
    by simp
  from effective have e: "b ! 0 = 91"
    by simp
  from h1 h2 staged p call commit e buffer show ?thesis
    by blast
qed

text \<open>
  C6. Lift angles are never inverted: after \<open>transformAndSetAllServos\<close>, for every
  direction byte and every mirror flag, each lift angle stands unchanged in the slot one
  past the transformed pivot index of its leg. The mirror adjustment of pivot angles is
  an involution: a mirrored call whose pivot arguments are already mirrored
  (\<open>180 - a\<close>) stores \<open>180 - (180 - a) = a\<close>, the original angles.
\<close>

theorem C6_mirror_involutive_lift_unchanged:
  assumes "NUMBER_OF_SERVOS \<le> length (sServoNextPositionArray s)"
  shows "(\<exists>r s'.
            transformAndSetAllServos lib fuel aFLP aBLP aBRP aFRP aFLL aBLL aBRL aFRL
              d m aDoMove s = Some (r, s') \<and>
            sServoNextPositionArray s' !
              (unat (transformOneServoIndex (word_of_nat FRONT_LEFT_PIVOT) d m) + LIFT_SERVO_OFFSET)
              = aFLL \<and>
            sServoNextPositionArray s' !
              (unat (transformOneServoIndex (word_of_nat BACK_LEFT_PIVOT) d m) + LIFT_SERVO_OFFSET)
              = aBLL \<and>
            sServoNextPositionArray s' !
              (unat (transformOneServoIndex (word_of_nat BACK_RIGHT_PIVOT) d m) + LIFT_SERVO_OFFSET)
              = aBRL \<and>
            sServoNextPositionArray s' !
              (unat (transformOneServoIndex (word_of_nat FRONT_RIGHT_PIVOT) d m) + LIFT_SERVO_OFFSET)
              = aFRL) \<and>
         (\<exists>r s'.
            transformAndSetAllServos lib fuel (180 - aFLP) (180 - aBLP) (180 - aBRP) (180 - aFRP)
              aFLL aBLL aBRL aFRL d True aDoMove s = Some (r, s') \<and>
            sServoNextPositionArray s' !
              unat (transformOneServoIndex (word_of_nat FRONT_LEFT_PIVOT) d True) = aFLP \<and>
            sServoNextPositionArray s' !
              unat (transformOneServoIndex (word_of_nat BACK_LEFT_PIVOT) d True) = aBLP \<and>
            sServoNextPositionArray s' !
              unat (transformOneServoIndex (word_of_nat BACK_RIGHT_PIVOT) d True) = aBRP \<and>
            sServoNextPositionArray s' !
              unat (transformOneServoIndex (word_of_nat FRONT_RIGHT_PIVOT) d True) = aFRP)"
proof -
  have len: "8 \<le> length (sServoNextPositionArray s)"
    using assms by (simp add: NUMBER_OF_SERVOS_def)
  obtain r s' where
    run: "transformAndSetAllServos lib fuel aFLP aBLP aBRP aFRP aFLL aBLL aBRL aFRL
            d m aDoMove s = Some (r, s')"
    and buf: "sServoNextPositionArray s' = (sServoNextPositionArray s)
       [unat (transformOneServoIndex 0 d m) := (if m then 180 - aFLP else aFLP),
        Suc (unat (transformOneServoIndex 0 d m)) := aFLL,
        unat (transformOneServoIndex 2 d m) := (if m then 180 - aBLP else aBLP),
        Suc (unat (transformOneServoIndex 2 d m)) := aBLL,
        unat (transformOneServoIndex 4 d m) := (if m then 180 - aBRP else aBRP),
        Suc (unat (transformOneServoIndex 4 d m)) := aBRL,
        unat (transformOneServoIndex 6 d m) := (if m then 180 - aFRP else aFRP),
        Suc (unat (transformOneServoIndex 6 d m)) := aFRL]"
    using transformAndSetAllServos_buffer [OF assms] by blast
  obtain r2 s2 where
    run2: "transformAndSetAllServos lib fuel (180 - aFLP) (180 - aBLP) (180 - aBRP) (180 - aFRP)
            aFLL aBLL aBRL aFRL d True aDoMove s = Some (r2, s2)"
    and buf2: "sServoNextPositionArray s2 = (sServoNextPositionArray s)
       [unat (transformOneServoIndex 0 d True) := (if True then 180 - (180 - aFLP) else 180 - aFLP),
        Suc (unat (transformOneServoIndex 0 d True)) := aFLL,
        unat (transformOneServoIndex 2 d True) := (if True then 180 - (180 - aBLP) else 180 - aBLP),
        Suc (unat (transformOneServoIndex 2 d True)) := aBLL,
        unat (transformOneServoIndex 4 d True) := (if True then 180 - (180 - aBRP) else 180 - aBRP),
        Suc (unat (transformOneServoIndex 4 d True)) := aBRL,
        unat (transformOneServoIndex 6 d True) := (if True then 180 - (180 - aFRP) else 180 - aFRP),
        Suc (unat (transformOneServoIndex 6 d True)) := aFRL]"
    using transformAndSetAllServos_buffer [OF assms] by blast
  have lifts:
    "sServoNextPositionArray s' ! Suc (unat (transformOneServoIndex 0 d m)) = aFLL"
    "sServoNextPositionArray s' ! Suc (unat (transformOneServoIndex 2 d m)) = aBLL"
    "sServoNextPositionArray s' ! Suc (unat (transformOneServoIndex 4 d m)) = aBRL"
    "sServoNextPositionArray s' ! Suc (unat (transformOneServoIndex 6 d m)) = aFRL"
    unfolding buf by (rule staged_nth [OF len])+
  have pivots:
    "sServoNextPositionArray s2 ! unat (transformOneServoIndex 0 d True) = aFLP"
    "sServoNextPositionArray s2 ! unat (transformOneServoIndex 2 d True) = aBLP"
    "sServoNextPositionArray s2 ! unat (transformOneServoIndex 4 d True) = aBRP"
    "sServoNextPositionArray s2 ! unat (transformOneServoIndex 6 d True) = aFRP"
    unfolding buf2 by (simp_all add: staged_nth [OF len])
  show ?thesis
    unfolding run run2 using lifts pivots
    by (simp add: config_defs)
qed

theorem C6_mirror_involutive_lift_unchanged_witness:
  "NUMBER_OF_SERVOS \<le> length (sServoNextPositionArray startup_robot) \<and>
   (\<exists>r s'.
       transformAndSetAllServos step_lib 0 180 1 135 30 111 20 30 40
         MOVE_DIRECTION_BACKWARD True False startup_robot = Some (r, s') \<and>
       sServoNextPositionArray s' ! 3 = 111 \<and> sServoNextPositionArray s' ! 1 = 20 \<and>
       sServoNextPositionArray s' ! 7 = 30 \<and> sServoNextPositionArray s' ! 5 = 40) \<and>
   (\<exists>r s'.
       transformAndSetAllServos step_lib 0 (180 - 180) (180 - 1) (180 - 135) (180 - 30)
         111 20 30 40 MOVE_DIRECTION_BACKWARD True False startup_robot = Some (r, s') \<and>
       sServoNextPositionArray s' ! 2 = 180 \<and> sServoNextPositionArray s' ! 0 = 1 \<and>
       sServoNextPositionArray s' ! 6 = 135 \<and> sServoNextPositionArray s' ! 4 = 30)"
proof -
  have len: "NUMBER_OF_SERVOS \<le> length (sServoNextPositionArray startup_robot)"
    by (simp add: startup_robot_def NUMBER_OF_SERVOS_def)
  have idx:
    "unat (transformOneServoIndex (word_of_nat FRONT_LEFT_PIVOT) MOVE_DIRECTION_BACKWARD True) = 2"
    "unat (transformOneServoIndex (word_of_nat BACK_LEFT_PIVOT) MOVE_DIRECTION_BACKWARD True) = 0"
    "unat (transformOneServoIndex (word_of_nat BACK_RIGHT_PIVOT) MOVE_DIRECTION_BACKWARD True) = 6"
    "unat (transformOneServoIndex (word_of_nat FRONT_RIGHT_PIVOT) MOVE_DIRECTION_BACKWARD True) = 4"
    by code_simp+
  from C6_mirror_involutive_lift_unchanged [OF len, of step_lib 0 180 1 135 30 111 20 30 40
      MOVE_DIRECTION_BACKWARD True False]
  show ?thesis
    unfolding idx LIFT_SERVO_OFFSET_def using len by simp
qed

text \<open>
  C7, as stated: between every update step and the next update step or the exit of the
  loop there is a stop check, also after the update that completes the motion. This
  fails: when the update reports completion the loop condition ends the loop at once.
  On the start-up state, where every servo is at its target, the loop makes one turn and
  returns; its last event is the update.
\<close>

theorem C7_stop_check_after_final_update_counterexample:
  "fst (updateAndCheckInputAndWaitForAllServosToStop step_lib 1 startup_robot) = Returned \<and>
   events (snd (updateAndCheckInputAndWaitForAllServosToStop step_lib 1 startup_robot))
     = [PollInput, StopCheck, Delay 20, UpdateAll] \<and>
   \<not> stop_checked_after_every_update
       (events (snd (updateAndCheckInputAndWaitForAllServosToStop step_lib 1 startup_robot)))"
  by (simp add: run_defs list_all_iff)

text \<open>
  C7, amended. A run of either loop, complete or not, is a number \<open>k\<close> of full turns
  (poll, stop check, wait of one refresh interval, update) followed, only when the loop
  is left through the stop request, by one more poll and stop check. In none of the
  \<open>k\<close> turns was a stop request seen at the poll, and the update of a turn reports
  completion exactly when the run returns and the turn is its last: the loop goes on
  after every update that does not complete the motion, so a poll and a stop check come
  before the next update, and it returns at once, in the state the update left, after
  the update that completes the motion, with no further poll or stop check. A run left
  through the stop request saw the request at the poll after its \<open>k\<close> turns.
\<close>

theorem C7_stop_check_placement:
  "(\<exists>k \<le> fuel.
      (\<forall>j < k. \<not> sRequestToStopReceived (checkIRInput ((loop_round_all lib ^^ j) s))) \<and>
      (\<forall>j < k. loop_done_all lib ((loop_round_all lib ^^ j) s) = (fst (updateAndCheckInputAndWaitForAllServosToStop lib fuel s) = Returned \<and> Suc j = k)) \<and>
      (fst (updateAndCheckInputAndWaitForAllServosToStop lib fuel s) = Returned \<longrightarrow> 0 < k \<and> snd (updateAndCheckInputAndWaitForAllServosToStop lib fuel s) = (loop_round_all lib ^^ k) s) \<and>
      (fst (updateAndCheckInputAndWaitForAllServosToStop lib fuel s) = Stopped \<longrightarrow>
         k < fuel \<and> sRequestToStopReceived (checkIRInput ((loop_round_all lib ^^ k) s))) \<and>
      (fst (updateAndCheckInputAndWaitForAllServosToStop lib fuel s) = StillMoving \<longrightarrow> k = fuel) \<and>
      events (snd (updateAndCheckInputAndWaitForAllServosToStop lib fuel s)) =
        events s
        @ concat (replicate k [PollInput, StopCheck, Delay (REFRESH_INTERVAL div 1000), UpdateAll])
        @ (if fst (updateAndCheckInputAndWaitForAllServosToStop lib fuel s) = Stopped then [PollInput, StopCheck] else [])) \<and>
   (\<exists>k \<le> fuel.
      (\<forall>j < k. \<not> sRequestToStopReceived (checkIRInput ((loop_round_one lib i ^^ j) s))) \<and>
      (\<forall>j < k. loop_done_one lib i ((loop_round_one lib i ^^ j) s) = (fst (moveOneServo_loop lib i fuel s) = Returned \<and> Suc j = k)) \<and>
      (fst (moveOneServo_loop lib i fuel s) = Returned \<longrightarrow> 0 < k \<and> snd (moveOneServo_loop lib i fuel s) = (loop_round_one lib i ^^ k) s) \<and>
      (fst (moveOneServo_loop lib i fuel s) = Stopped \<longrightarrow>
         k < fuel \<and> sRequestToStopReceived (checkIRInput ((loop_round_one lib i ^^ k) s))) \<and>
      (fst (moveOneServo_loop lib i fuel s) = StillMoving \<longrightarrow> k = fuel) \<and>
      events (snd (moveOneServo_loop lib i fuel s)) =
        events s
        @ concat (replicate k [PollInput, StopCheck, Delay (REFRESH_INTERVAL div 1000), UpdateOne i])
        @ (if fst (moveOneServo_loop lib i fuel s) = Stopped then [PollInput, StopCheck] else []))"
  using loop_all_run_events [of fuel lib s] loop_one_run_events [of fuel lib i s]
  by (rule conjI)

theorem C7_stop_check_placement_witness:
  "fst (updateAndCheckInputAndWaitForAllServosToStop step_lib (Suc 0) startup_robot) = Returned \<and>
   (\<exists>k \<le> Suc 0. 0 < k \<and>
      loop_done_all step_lib ((loop_round_all step_lib ^^ (k - 1)) startup_robot) \<and>
      snd (updateAndCheckInputAndWaitForAllServosToStop step_lib (Suc 0) startup_robot)
        = (loop_round_all step_lib ^^ k) startup_robot \<and>
      events (snd (updateAndCheckInputAndWaitForAllServosToStop step_lib (Suc 0) startup_robot)) =
        concat (replicate k [PollInput, StopCheck, Delay (REFRESH_INTERVAL div 1000), UpdateAll])) \<and>
   fst (moveOneServo_loop step_lib 0 (Suc 0) startup_robot) = Returned \<and>
   (\<exists>k \<le> Suc 0. 0 < k \<and>
      loop_done_one step_lib 0 ((loop_round_one step_lib 0 ^^ (k - 1)) startup_robot) \<and>
      snd (moveOneServo_loop step_lib 0 (Suc 0) startup_robot)
        = (loop_round_one step_lib 0 ^^ k) startup_robot \<and>
      events (snd (moveOneServo_loop step_lib 0 (Suc 0) startup_robot)) =
        concat (replicate k [PollInput, StopCheck, Delay (REFRESH_INTERVAL div 1000), UpdateOne 0])) \<and>
   fst (moveOneServo_loop step_lib 0 (Suc (Suc 0)) stop_pending_robot) = Stopped \<and>
   (\<exists>k < Suc (Suc 0).
      (\<forall>j < k. \<not> loop_done_one step_lib 0 ((loop_round_one step_lib 0 ^^ j) stop_pending_robot)) \<and>
      sRequestToStopReceived
        (checkIRInput ((loop_round_one step_lib 0 ^^ k) stop_pending_robot)) \<and>
      events (snd (moveOneServo_loop step_lib 0 (Suc (Suc 0)) stop_pending_robot)) =
        concat (replicate k [PollInput, StopCheck, Delay (REFRESH_INTERVAL div 1000), UpdateOne 0])
        @ [PollInput, StopCheck])"
proof -
  note r = startup_runs
  note t1 = C7_stop_check_placement [of "Suc 0" step_lib startup_robot 0]
  note t2 = C7_stop_check_placement [of "Suc (Suc 0)" step_lib stop_pending_robot 0]
  from t1 [THEN conjunct1] obtain k where k: "k \<le> Suc 0"
    "\<forall>j < k. loop_done_all step_lib ((loop_round_all step_lib ^^ j) startup_robot) =
       (fst (updateAndCheckInputAndWaitForAllServosToStop step_lib (Suc 0) startup_robot) = Returned
        \<and> Suc j = k)"
    "fst (updateAndCheckInputAndWaitForAllServosToStop step_lib (Suc 0) startup_robot) = Returned
       \<longrightarrow> 0 < k \<and>
         snd (updateAndCheckInputAndWaitForAllServosToStop step_lib (Suc 0) startup_robot)
           = (loop_round_all step_lib ^^ k) startup_robot"
    "events (snd (updateAndCheckInputAndWaitForAllServosToStop step_lib (Suc 0) startup_robot)) =
        events startup_robot
        @ concat (replicate k [PollInput, StopCheck, Delay (REFRESH_INTERVAL div 1000), UpdateAll])
        @ (if fst (updateAndCheckInputAndWaitForAllServosToStop step_lib (Suc 0) startup_robot)
              = Stopped
           then [PollInput, StopCheck] else [])"
    by (elim exE conjE) (rule that; assumption)
  from k(3) r(1) have k0: "0 < k" by simp
  then have "k - 1 < k" "Suc (k - 1) = k" by simp_all
  with k(2) r(1) have "loop_done_all step_lib ((loop_round_all step_lib ^^ (k - 1)) startup_robot)"
    by blast
  with k k0 r have all: "\<exists>k \<le> Suc 0. 0 < k \<and>
      loop_done_all step_lib ((loop_round_all step_lib ^^ (k - 1)) startup_robot) \<and>
      snd (updateAndCheckInputAndWaitForAllServosToStop step_lib (Suc 0) startup_robot)
        = (loop_round_all step_lib ^^ k) startup_robot \<and>
      events (snd (updateAndCheckInputAndWaitForAllServosToStop step_lib (Suc 0) startup_robot)) =
        concat (replicate k [PollInput, StopCheck, Delay (REFRESH_INTERVAL div 1000), UpdateAll])"
    by (intro exI [of _ k]) simp
  from t1 [THEN conjunct2] obtain n where n: "n \<le> Suc 0"
    "\<forall>j < n. loop_done_one step_lib 0 ((loop_round_one step_lib 0 ^^ j) startup_robot) =
       (fst (moveOneServo_loop step_lib 0 (Suc 0) startup_robot) = Returned \<and> Suc j = n)"
    "fst (moveOneServo_loop step_lib 0 (Suc 0) startup_robot) = Returned
       \<longrightarrow> 0 < n \<and>
         snd (moveOneServo_loop step_lib 0 (Suc 0) startup_robot)
           = (loop_round_one step_lib 0 ^^ n) startup_robot"
    "events (snd (moveOneServo_loop step_lib 0 (Suc 0) startup_robot)) =
        events startup_robot
        @ concat (replicate n [PollInput, StopCheck, Delay (REFRESH_INTERVAL div 1000), UpdateOne 0])
        @ (if fst (moveOneServo_loop step_lib 0 (Suc 0) startup_robot) = Stopped
           then [PollInput, StopCheck] else [])"
    by (elim exE conjE) (rule that; assumption)
  from n(3) r(2) have n0: "0 < n" by simp
  then have "n - 1 < n" "Suc (n - 1) = n" by simp_all
  with n(2) r(2) have "loop_done_one step_lib 0 ((loop_round_one step_lib 0 ^^ (n - 1)) startup_robot)"
    by blast
  with n n0 r have one: "\<exists>k \<le> Suc 0. 0 < k \<and>
      loop_done_one step_lib 0 ((loop_round_one step_lib 0 ^^ (k - 1)) startup_robot) \<and>
      snd (moveOneServo_loop step_lib 0 (Suc 0) startup_robot)
        = (loop_round_one step_lib 0 ^^ k) startup_robot \<and>
      events (snd (moveOneServo_loop step_lib 0 (Suc 0) startup_robot)) =
        concat (replicate k [PollInput, StopCheck, Delay (REFRESH_INTERVAL div 1000), UpdateOne 0])"
    by (intro exI [of _ n]) simp
  from t2 [THEN conjunct2] obtain m where m: "m \<le> Suc (Suc 0)"
    "\<forall>j < m. loop_done_one step_lib 0 ((loop_round_one step_lib 0 ^^ j) stop_pending_robot) =
       (fst (moveOneServo_loop step_lib 0 (Suc (Suc 0)) stop_pending_robot) = Returned
        \<and> Suc j = m)"
    "fst (moveOneServo_loop step_lib 0 (Suc (Suc 0)) stop_pending_robot) = Stopped
       \<longrightarrow> m < Suc (Suc 0) \<and>
         sRequestToStopReceived
           (checkIRInput ((loop_round_one step_lib 0 ^^ m) stop_pending_robot))"
    "events (snd (moveOneServo_loop step_lib 0 (Suc (Suc 0)) stop_pending_robot)) =
        events stop_pending_robot
        @ concat (replicate m [PollInput, StopCheck, Delay (REFRESH_INTERVAL div 1000), UpdateOne 0])
        @ (if fst (moveOneServo_loop step_lib 0 (Suc (Suc 0)) stop_pending_robot) = Stopped
           then [PollInput, StopCheck] else [])"
    by (elim exE conjE) (rule that; assumption)
  from m r(4,5) have stopped: "\<exists>k < Suc (Suc 0).
      (\<forall>j < k. \<not> loop_done_one step_lib 0 ((loop_round_one step_lib 0 ^^ j) stop_pending_robot)) \<and>
      sRequestToStopReceived
        (checkIRInput ((loop_round_one step_lib 0 ^^ k) stop_pending_robot)) \<and>
      events (snd (moveOneServo_loop step_lib 0 (Suc (Suc 0)) stop_pending_robot)) =
        concat (replicate k [PollInput, StopCheck, Delay (REFRESH_INTERVAL div 1000), UpdateOne 0])
        @ [PollInput, StopCheck]"
    by (intro exI [of _ m]) simp
  from r(1,2,4) all one stopped show ?thesis
    by blast
qed

text \<open>
  C8. \<open>setLiftServoHeight\<close> commands the lift servo, through the blocking \<open>easeTo\<close>
  of the library, to the angle \<open>LIFT_MAX_ANGLE + (h' * (LIFT_MIN_ANGLE - LIFT_MAX_ANGLE)) / 100\<close>
  where \<open>h'\<close> is the height percent clamped to at most 100 and the division truncates:
  the linear map of \<open>[0, 100]\<close> onto the range from \<open>LIFT_MAX_ANGLE\<close> to
  \<open>LIFT_MIN_ANGLE\<close>, whatever the two constants are. The angle lies between the two
  constants; every percentage above 100 is treated as 100; 0 gives \<open>LIFT_MAX_ANGLE\<close> and
  every percentage from 100 on gives \<open>LIFT_MIN_ANGLE\<close>.
\<close>

theorem C8_setLiftServoHeight:
  "setLiftServoHeight lib LIFT_MAX_ANGLE LIFT_MIN_ANGLE aLiftServo aHeightPercent =
     Some (lib_easeTo lib
             (word_of_int (sint LIFT_MAX_ANGLE
                + c_div (min (uint aHeightPercent) 100
                           * (sint LIFT_MIN_ANGLE - sint LIFT_MAX_ANGLE)) 100))
             aLiftServo) \<and>
   min (sint LIFT_MAX_ANGLE) (sint LIFT_MIN_ANGLE)
     \<le> sint LIFT_MAX_ANGLE
         + c_div (min (uint aHeightPercent) 100 * (sint LIFT_MIN_ANGLE - sint LIFT_MAX_ANGLE)) 100 \<and>
   sint LIFT_MAX_ANGLE
     + c_div (min (uint aHeightPercent) 100 * (sint LIFT_MIN_ANGLE - sint LIFT_MAX_ANGLE)) 100
     \<le> max (sint LIFT_MAX_ANGLE) (sint LIFT_MIN_ANGLE) \<and>
   (100 < aHeightPercent \<longrightarrow>
      setLiftServoHeight lib LIFT_MAX_ANGLE LIFT_MIN_ANGLE aLiftServo aHeightPercent =
      setLiftServoHeight lib LIFT_MAX_ANGLE LIFT_MIN_ANGLE aLiftServo 100) \<and>
   setLiftServoHeight lib LIFT_MAX_ANGLE LIFT_MIN_ANGLE aLiftServo 0 =
      Some (lib_easeTo lib LIFT_MAX_ANGLE aLiftServo) \<and>
   (100 \<le> aHeightPercent \<longrightarrow>
      setLiftServoHeight lib LIFT_MAX_ANGLE LIFT_MIN_ANGLE aLiftServo aHeightPercent =
      Some (lib_easeTo lib LIFT_MIN_ANGLE aLiftServo))"
proof -
  let ?x = "min (uint aHeightPercent) 100"
  let ?d = "sint LIFT_MIN_ANGLE - sint LIFT_MAX_ANGLE"
  have x: "0 \<le> ?x" "?x \<le> 100"
    by simp_all
  have run: "setLiftServoHeight lib LIFT_MAX_ANGLE LIFT_MIN_ANGLE aLiftServo h =
     Some (lib_easeTo lib
             (word_of_int (sint LIFT_MAX_ANGLE + c_div (min (uint h) 100 * ?d) 100)) aLiftServo)"
    for h
    unfolding setLiftServoHeight_def Let_def clamped_percent
    by (simp add: arduino_map_percent)
  define q where "q = c_div (?x * ?d) 100"
  have "min 0 ?d \<le> q \<and> q \<le> max 0 ?d"
    unfolding q_def by (rule c_div_percent_between [OF x])
  then have "min (sint LIFT_MAX_ANGLE) (sint LIFT_MIN_ANGLE) \<le> sint LIFT_MAX_ANGLE + q"
    and "sint LIFT_MAX_ANGLE + q \<le> max (sint LIFT_MAX_ANGLE) (sint LIFT_MIN_ANGLE)"
    by linarith+
  then have lo: "min (sint LIFT_MAX_ANGLE) (sint LIFT_MIN_ANGLE)
      \<le> sint LIFT_MAX_ANGLE + c_div (?x * ?d) 100"
    and hi: "sint LIFT_MAX_ANGLE + c_div (?x * ?d) 100
      \<le> max (sint LIFT_MAX_ANGLE) (sint LIFT_MIN_ANGLE)"
    unfolding q_def by simp_all
  have over: "min (uint aHeightPercent) 100 = 100" if "100 \<le> aHeightPercent"
    using that by (simp add: word_le_def)
  have top: "setLiftServoHeight lib LIFT_MAX_ANGLE LIFT_MIN_ANGLE aLiftServo aHeightPercent =
      Some (lib_easeTo lib LIFT_MIN_ANGLE aLiftServo)" if "100 \<le> aHeightPercent"
    unfolding run over [OF that] c_div_100 by simp
  have same: "setLiftServoHeight lib LIFT_MAX_ANGLE LIFT_MIN_ANGLE aLiftServo aHeightPercent =
      setLiftServoHeight lib LIFT_MAX_ANGLE LIFT_MIN_ANGLE aLiftServo 100" if "100 < aHeightPercent"
  proof -
    from that have "100 \<le> aHeightPercent" by simp
    then show ?thesis
      unfolding run over [OF \<open>100 \<le> aHeightPercent\<close>] by simp
  qed
  have zero: "setLiftServoHeight lib LIFT_MAX_ANGLE LIFT_MIN_ANGLE aLiftServo 0 =
      Some (lib_easeTo lib LIFT_MAX_ANGLE aLiftServo)"
    unfolding run by (simp add: c_div_def)
  show ?thesis
    using run lo hi top same zero by blast
qed

theorem C8_setLiftServoHeight_witness:
  "(100 :: uint8) < 200 \<and> (100 :: uint8) \<le> 200 \<and>
   setLiftServoHeight step_lib 125 40 \<lparr>trim = 0, currentAngle = 90, targetAngle = 90\<rparr> 200
     = Some \<lparr>trim = 0, currentAngle = 40, targetAngle = 40\<rparr> \<and>
   setLiftServoHeight step_lib 125 40 \<lparr>trim = 0, currentAngle = 90, targetAngle = 90\<rparr> 200
     = setLiftServoHeight step_lib 125 40 \<lparr>trim = 0, currentAngle = 90, targetAngle = 90\<rparr> 100 \<and>
   setLiftServoHeight step_lib 125 40 \<lparr>trim = 0, currentAngle = 90, targetAngle = 90\<rparr> 0
     = Some \<lparr>trim = 0, currentAngle = 125, targetAngle = 125\<rparr>"
proof -
  have e: "lib_easeTo step_lib a sv = sv\<lparr>currentAngle := a, targetAngle := a\<rparr>" for a sv
    by (simp add: step_lib_def)
  from C8_setLiftServoHeight [of step_lib 125 40
      "\<lparr>trim = 0, currentAngle = 90, targetAngle = 90\<rparr>" 200]
  show ?thesis
    by (auto simp: e c_div_def)
qed

text \<open>
  C9, as stated: the diagnostic reports only produce text and leave all actuator state,
  each actuator's trim offset included, unchanged. This fails for \<open>printTrimAngles\<close>:
  each turn of its loop calls \<open>setTrim\<close> on the servo with the entry of the working trim
  table. With a working table that holds 5 and -3 for the first two servos, whose trim
  is still 0, the servos have trim 5 and -3 afterwards.
\<close>

theorem C9_printTrimAngles_sets_trim_counterexample:
  "map trim (sServoArray trimmed_robot) = [0, 0, 0, 0, 0, 0, 0, 0] \<and>
   map_option (\<lambda>s'. map trim (sServoArray s')) (printTrimAngles trimmed_robot)
     = Some [5, - 3, 0, 0, 0, 0, 0, 0] \<and>
   map_option sServoArray (printTrimAngles trimmed_robot) \<noteq> Some (sServoArray trimmed_robot)"
  by code_simp

text \<open>
  C9, amended. \<open>printSpeed\<close> only appends its text to the output: it is purely
  observational. \<open>printTrimAngles\<close>, on a registry with its eight servos, appends one
  line per servo to the output and leaves the working trim table unchanged, as it leaves
  everything else but the servos; it sets the trim offset of each of the eight servos to
  the servo's entry of the working trim table, and leaves the rest of each servo (its
  angles) unchanged.
\<close>

theorem C9_diagnostic_output_effects:
  "printSpeed s =
     s\<lparr>serialOut := serialOut s @ [Text '' Speed='', Number (uint (sServoSpeed s)), Newline]\<rparr> \<and>
   (NUMBER_OF_SERVOS \<le> length (sServoTrimAngles s) \<and>
    NUMBER_OF_SERVOS \<le> length (sServoArray s) \<longrightarrow>
      (\<exists>s'. printTrimAngles s = Some s' \<and>
         s' = s\<lparr>serialOut := serialOut s', sServoArray := sServoArray s'\<rparr> \<and>
         sServoTrimAngles s' = sServoTrimAngles s \<and>
         serialOut s' = serialOut s @ concat (map (trim_line s) [0..<NUMBER_OF_SERVOS]) \<and>
         length (sServoArray s') = length (sServoArray s) \<and>
         (\<forall>j < length (sServoArray s).
            sServoArray s' ! j =
              (if j < NUMBER_OF_SERVOS
               then (sServoArray s ! j)\<lparr>trim := sServoTrimAngles s ! j\<rparr>
               else sServoArray s ! j))))"
proof (intro conjI impI)
  show "printSpeed s =
     s\<lparr>serialOut := serialOut s @ [Text '' Speed='', Number (uint (sServoSpeed s)), Newline]\<rparr>"
    by (simp add: printSpeed_def serial_print_def Let_def)
next
  assume a: "NUMBER_OF_SERVOS \<le> length (sServoTrimAngles s) \<and>
    NUMBER_OF_SERVOS \<le> length (sServoArray s)"
  from printTrimAngles_from_result [of s 0] a
  obtain s' where s': "printTrimAngles_from 0 s = Some s'"
    "s' = s\<lparr>serialOut := serialOut s', sServoArray := sServoArray s'\<rparr>"
    "serialOut s' = serialOut s @ concat (map (trim_line s) [0..<NUMBER_OF_SERVOS])"
    "length (sServoArray s') = length (sServoArray s)"
    "\<forall>j < length (sServoArray s).
        sServoArray s' ! j =
          (if 0 \<le> j \<and> j < NUMBER_OF_SERVOS
           then setTrim (sServoTrimAngles s ! j) (sServoArray s ! j)
           else sServoArray s ! j)"
    by auto
  have "sServoTrimAngles s' = sServoTrimAngles s"
    by (subst s'(2)) simp
  with s' show "\<exists>s'. printTrimAngles s = Some s' \<and>
         s' = s\<lparr>serialOut := serialOut s', sServoArray := sServoArray s'\<rparr> \<and>
         sServoTrimAngles s' = sServoTrimAngles s \<and>
         serialOut s' = serialOut s @ concat (map (trim_line s) [0..<NUMBER_OF_SERVOS]) \<and>
         length (sServoArray s') = length (sServoArray s) \<and>
         (\<forall>j < length (sServoArray s).
            sServoArray s' ! j =
              (if j < NUMBER_OF_SERVOS
               then (sServoArray s ! j)\<lparr>trim := sServoTrimAngles s ! j\<rparr>
               else sServoArray s ! j))"
    by (intro exI [of _ s']) (simp add: printTrimAngles_def setTrim_def)
qed

theorem C9_diagnostic_output_effects_witness:
  "NUMBER_OF_SERVOS \<le> length (sServoTrimAngles trimmed_robot) \<and>
   NUMBER_OF_SERVOS \<le> length (sServoArray trimmed_robot) \<and>
   (\<exists>s'. printTrimAngles trimmed_robot = Some s' \<and>
      sServoTrimAngles s' = [5, - 3, 0, 0, 0, 0, 0, 0] \<and>
      sServoArray s' ! 0 = \<lparr>trim = 5, currentAngle = 90, targetAngle = 90\<rparr> \<and>
      sServoArray s' ! 1 = \<lparr>trim = - 3, currentAngle = 90, targetAngle = 90\<rparr>)"
proof -
  note w = trimmed_robot_wf
  from C9_diagnostic_output_effects [of trimmed_robot] w(1,2)
  obtain s' where s': "printTrimAngles trimmed_robot = Some s'"
    "sServoTrimAngles s' = sServoTrimAngles trimmed_robot"
    "\<forall>j < length (sServoArray trimmed_robot).
        sServoArray s' ! j =
          (if j < NUMBER_OF_SERVOS
           then (sServoArray trimmed_robot ! j)\<lparr>trim := sServoTrimAngles trimmed_robot ! j\<rparr>
           else sServoArray trimmed_robot ! j)"
    by blast
  from s'(3) have "sServoArray s' ! 0 = \<lparr>trim = 5, currentAngle = 90, targetAngle = 90\<rparr>"
    and "sServoArray s' ! 1 = \<lparr>trim = - 3, currentAngle = 90, targetAngle = 90\<rparr>"
    unfolding w(3) by (simp_all add: w(4,5) NUMBER_OF_SERVOS_def)
  with s'(1,2) w show ?thesis
    by simp
qed

text \<open>
  C10, as stated: every call of the single-servo move makes at least one poll, one stop
  check and one wait of a full refresh interval before the first completion check, also
  when the servo is already at its target. This fails when the stop request is seen at
  the first poll: the call returns after the poll and the stop check, with no wait and
  no completion check. Here servo 0 is at 90 degrees and is asked to go to 90 degrees.
\<close>

theorem C10_no_tick_when_stopped_counterexample:
  "map_option (\<lambda>(r, s'). (r, events s'))
     (moveOneServoAndCheckInputAndWait step_lib (Suc 0) 0 90 90
        (startup_robot\<lparr>irPending := [True]\<rparr>))
     = Some (Stopped, [PollInput, StopCheck]) \<and>
   currentAngle (sServoArray startup_robot ! 0) = 90 \<and>
   \<not> tick_before_first_update [PollInput, StopCheck]"
  by (simp add: moveOneServoAndCheckInputAndWait_def tick_before_first_update_def run_defs)

text \<open>
  C10, amended. Every call of the single-servo move on a servo of the registry, whatever
  the target angle (the current angle included), begins with one poll and one stop
  check. If the stop request is seen at that poll, the call returns there. Otherwise a
  wait of one refresh interval and then the first update, whose result is the first
  completion check, follow: poll, stop check and a full wait all come before the first
  completion check.
\<close>

theorem C10_first_turn_of_single_servo_move:
  assumes "unat aServoIndex < length (sServoArray s)"
  shows "\<exists>r s' rest.
           moveOneServoAndCheckInputAndWait lib (Suc fuel) aServoIndex aDegree aDegreesPerSecond s
             = Some (r, s') \<and>
           events s' = events s @ [PollInput, StopCheck] @ rest \<and>
           (if sRequestToStopReceived (checkIRInput s)
            then r = Stopped \<and> rest = []
            else (\<exists>rest'. rest = [Delay (REFRESH_INTERVAL div 1000),
                                   UpdateOne (unat aServoIndex)] @ rest') \<and>
                 tick_before_first_update ([PollInput, StopCheck] @ rest))"
proof -
  let ?s0 = "s\<lparr>sServoArray := (sServoArray s)
      [unat aServoIndex :=
         lib_startEaseTo lib aDegree aDegreesPerSecond (sServoArray s ! unat aServoIndex)]\<rparr>"
  let ?run = "moveOneServo_loop lib (unat aServoIndex) (Suc fuel) ?s0"
  have call: "moveOneServoAndCheckInputAndWait lib (Suc fuel) aServoIndex aDegree
      aDegreesPerSecond s = Some (fst ?run, snd ?run)"
    using assms by (simp add: moveOneServoAndCheckInputAndWait_def Let_def
        del: moveOneServo_loop.simps)
  show ?thesis
  proof (cases "sRequestToStopReceived (checkIRInput s)")
    case True
    then have "?run = (Stopped, (checkIRInput ?s0)\<lparr>events := events ?s0 @ [PollInput, StopCheck]\<rparr>)"
      by (simp add: loop_one_Suc checkIRInput_servos_irrelevant del: moveOneServo_loop.simps)
    then show ?thesis
      using True call by (simp del: moveOneServo_loop.simps)
  next
    case False
    then have ns: "\<not> sRequestToStopReceived (checkIRInput ?s0)"
      by (simp add: checkIRInput_servos_irrelevant)
    from loop_one_first_turn [OF ns, of lib "unat aServoIndex" fuel]
    obtain rest' where ev: "events (snd ?run) = events s
        @ [PollInput, StopCheck, Delay (REFRESH_INTERVAL div 1000), UpdateOne (unat aServoIndex)]
        @ rest'"
      by auto
    have "tick_before_first_update ([PollInput, StopCheck]
        @ ([Delay (REFRESH_INTERVAL div 1000), UpdateOne (unat aServoIndex)] @ rest'))"
      by (simp add: tick_before_first_update_def)
    with False call ev show ?thesis
      by (intro exI [of _ "fst ?run"] exI [of _ "snd ?run"]
            exI [of _ "[Delay (REFRESH_INTERVAL div 1000), UpdateOne (unat aServoIndex)] @ rest'"])
         (simp del: moveOneServo_loop.simps)
  qed
qed

theorem C10_first_turn_of_single_servo_move_witness:
  "unat (0 :: uint8) < length (sServoArray startup_robot) \<and>
   \<not> sRequestToStopReceived (checkIRInput startup_robot) \<and>
   currentAngle (sServoArray startup_robot ! 0) = 90 \<and>
   (\<exists>r s' rest.
       moveOneServoAndCheckInputAndWait step_lib (Suc 0) 0 90 90 startup_robot = Some (r, s') \<and>
       events s' = [PollInput, StopCheck] @ rest \<and>
       (\<exists>rest'. rest = [Delay (REFRESH_INTERVAL div 1000), UpdateOne 0] @ rest') \<and>
       tick_before_first_update ([PollInput, StopCheck] @ rest))"
proof -
  have h: "unat (0 :: uint8) < length (sServoArray startup_robot)"
    "\<not> sRequestToStopReceived (checkIRInput startup_robot)"
    "currentAngle (sServoArray startup_robot ! 0) = 90"
    "events startup_robot = []"
    by (simp_all add: run_defs)
  from C10_first_turn_of_single_servo_move [OF h(1), of step_lib 0 90 90]
  show ?thesis
    using h by (simp del: moveOneServo_loop.simps)
qed

end
